theory Spec2Isabelle
  imports Complex_Main "HOL-Library.Word" "HOL-Library.Multiset" "HOL-Library.Char_ord"
    "HOL-Library.List_Lexorder"
begin

chapter \<open>The model: drscp.h and drscp.cpp as HOL functions\<close>

section \<open>Bands and frequencies\<close>

text \<open>
  \<^verbatim>\<open>enum class HF_BAND { B160 = 0, B80, B40, B20, B15, B10, BAD };\<close>
\<close>

datatype HF_BAND = B160 | B80 | B40 | B20 | B15 | B10 | BAD

text \<open>
  What a C++ function of the program can do instead of returning: throw
  \<^verbatim>\<open>std::exception\<close> (\<^verbatim>\<open>band_from_qrg\<close>), throw \<^verbatim>\<open>std::out_of_range\<close> (the
  \<^verbatim>\<open>.at()\<close> of a container), throw \<^verbatim>\<open>std::length_error\<close> (the \<^verbatim>\<open>reserve\<close> of a
  vector), end the process with \<^verbatim>\<open>exit(-1)\<close>, or do something that C++ leaves
  undefined.
\<close>

datatype failure = Std_exception | Out_of_range | Length_error | Exit_minus_1 | Undefined_behaviour

text \<open>
  \<^verbatim>\<open>HF_BAND band_from_qrg(const int qrg)\<close>: six inclusive ranges tested in order,
  \<^verbatim>\<open>throw exception()\<close> when none holds. The argument is only compared, so a C++
  \<^verbatim>\<open>int\<close> is modelled by \<^typ>\<open>int\<close>.
\<close>

definition band_from_qrg :: "int \<Rightarrow> failure + HF_BAND" where
  "band_from_qrg qrg =
     (if qrg \<ge> 1800 \<and> qrg \<le> 2000 then Inr B160
      else if qrg \<ge> 3500 \<and> qrg \<le> 4000 then Inr B80
      else if qrg \<ge> 7000 \<and> qrg \<le> 7300 then Inr B40
      else if qrg \<ge> 14000 \<and> qrg \<le> 14350 then Inr B20
      else if qrg \<ge> 21000 \<and> qrg \<le> 21450 then Inr B15
      else if qrg \<ge> 28000 \<and> qrg \<le> 29700 then Inr B10
      else Inl Std_exception)"

section \<open>The call analyser: \<^verbatim>\<open>is_bust\<close>\<close>

text \<open>
  Callsigns are \<^verbatim>\<open>std::string\<close>s, here \<^typ>\<open>string\<close>; \<^verbatim>\<open>length()\<close> counts bytes, as
  \<^const>\<open>length\<close> does.

  Modelled from the spec: \<^verbatim>\<open>contains(longer, shorter)\<close> on two strings is declared in
  \<^verbatim>\<open>string_functions.h\<close>, which is not among the sources. The specification reads it as
  ``\<^verbatim>\<open>long\<close> contains \<^verbatim>\<open>short\<close> as a substring'': some run of consecutive
  characters of the first argument equals the second. Lemma \<open>contains_iff\<close> below shows
  that the recursion computes exactly that.
\<close>

fun contains :: "string \<Rightarrow> string \<Rightarrow> bool" where
  "contains [] ss = (ss = [])"
| "contains (c # s) ss = (take (length ss) (c # s) = ss \<or> contains s ss)"

text \<open>
  The three loops of \<^verbatim>\<open>is_bust\<close>, each a recursive function of the loop variable
  \<^verbatim>\<open>posn\<close>.

  \<^verbatim>\<open>for (size_t posn { 1 }; posn < longer.length() - 1; ++posn)
  { const string tmp { longer.substr(0, posn) + longer.substr(posn + 1) };
    if (tmp == shorter) return true; }\<close>

  The bound \<^verbatim>\<open>longer.length() - 1\<close> is unsigned. On the path that reaches this loop the
  longer string has at least one character (it is one longer than the other), so the
  subtraction does not wrap and the truncating subtraction of \<^typ>\<open>nat\<close> is the same
  number; lemma \<open>is_bust_loop_bounds\<close> records this.
\<close>

function deleted_char_loop :: "string \<Rightarrow> string \<Rightarrow> nat \<Rightarrow> bool" where
  "deleted_char_loop longer shorter posn =
     (if posn < length longer - 1
      then (let tmp = take posn longer @ drop (posn + 1) longer
            in if tmp = shorter then True
               else deleted_char_loop longer shorter (posn + 1))
      else False)"
  by pat_completeness auto
termination
  by (relation "measure (\<lambda>(longer, shorter, posn). length longer - 1 - posn)") auto

declare deleted_char_loop.simps [simp del]

text \<open>
  \<^verbatim>\<open>for (size_t posn { 0 }; posn < call.length(); ++posn)
  { if (call[posn] != copied[posn]) differences++; }\<close>

  The loop runs only when both strings have the same length, so \<^verbatim>\<open>copied[posn]\<close> is in
  range. \<^verbatim>\<open>differences\<close> is a C++ \<^verbatim>\<open>int\<close> that never exceeds the length of a callsign.
\<close>

function differences_loop :: "string \<Rightarrow> string \<Rightarrow> nat \<Rightarrow> int \<Rightarrow> int" where
  "differences_loop call copied posn differences =
     (if posn < length call
      then differences_loop call copied (posn + 1)
             (if call ! posn \<noteq> copied ! posn then differences + 1 else differences)
      else differences)"
  by pat_completeness auto
termination
  by (relation "measure (\<lambda>(call, copied, posn, differences). length call - posn)") auto

declare differences_loop.simps [simp del]

text \<open>
  \<^verbatim>\<open>for (size_t posn { 0 }; posn < call.length() - 1; ++posn)
  { string call_tmp { call };
    swap(call_tmp[posn], call_tmp[posn + 1]);
    if (call_tmp == copied) return true; }\<close>

  Here \<^verbatim>\<open>call\<close> is not empty: an empty \<^verbatim>\<open>call\<close> of the same length as \<^verbatim>\<open>copied\<close> is
  equal to it, and equal strings have returned at the first test.
\<close>

function inversion_loop :: "string \<Rightarrow> string \<Rightarrow> nat \<Rightarrow> bool" where
  "inversion_loop call copied posn =
     (if posn < length call - 1
      then (let call_tmp = call[posn := call ! (posn + 1), posn + 1 := call ! posn]
            in if call_tmp = copied then True
               else inversion_loop call copied (posn + 1))
      else False)"
  by pat_completeness auto
termination
  by (relation "measure (\<lambda>(call, copied, posn). length call - 1 - posn)") auto

declare inversion_loop.simps [simp del]

text \<open>
  \<^verbatim>\<open>bool is_bust(const string& call, const string& copied) noexcept\<close>, with
  \<^verbatim>\<open>ssize\<close> the signed length.
\<close>

definition is_bust :: "string \<Rightarrow> string \<Rightarrow> bool" where
  "is_bust call copied =
     (if call = copied then False
      else if \<bar>int (length call) - int (length copied)\<bar> \<ge> 2 then False
      else if \<bar>int (length call) - int (length copied)\<bar> = 1
      then (let longer = (if length call > length copied then call else copied);
                shorter = (if length call > length copied then copied else call)
            in if contains longer shorter then True
               else deleted_char_loop longer shorter 1)
      else if differences_loop call copied 0 0 = 1 then True
      else inversion_loop call copied 0)"

subsection \<open>The three rules of the specification\<close>

text \<open>
  The reference definition, written from the words of the specification and not from the
  code: (1) lengths that differ by two or more: not a bust; (2) lengths that differ by
  one: a bust iff the longer contains the shorter as a substring, or deleting exactly one
  interior character of the longer (position 1 to \<open>len(long) - 2\<close>) yields the shorter;
  (3) equal lengths: a bust iff exactly one character differs, or swapping two adjacent
  characters of the target yields the candidate.
\<close>

definition delete_char :: "nat \<Rightarrow> string \<Rightarrow> string" where
  "delete_char p s = take p s @ drop (Suc p) s"

definition swap_adjacent :: "nat \<Rightarrow> string \<Rightarrow> string" where
  "swap_adjacent p s = s[p := s ! Suc p, Suc p := s ! p]"

definition bust_reference :: "string \<Rightarrow> string \<Rightarrow> bool" where
  "bust_reference target candidate =
     (if \<bar>int (length target) - int (length candidate)\<bar> \<ge> 2 then False
      else if \<bar>int (length target) - int (length candidate)\<bar> = 1
      then (let long = (if length target > length candidate then target else candidate);
                short = (if length target > length candidate then candidate else target)
            in (\<exists>p q. long = p @ short @ q) \<or>
               (\<exists>p. 1 \<le> int p \<and> int p \<le> int (length long) - 2 \<and> delete_char p long = short))
      else card {i. i < length target \<and> target ! i \<noteq> candidate ! i} = 1 \<or>
           (\<exists>p. Suc p < length target \<and> swap_adjacent p target = candidate))"

section \<open>The QSO model and the contest parameters (drscp.h)\<close>

text \<open>
  \<^verbatim>\<open>class small_qso\<close>: transmitted call, received call, band, frequency in kHz, UTC
  time (\<^verbatim>\<open>time_t\<close>, seconds), relative minutes from the start of the contest, and the
  identifier taken from the global counter \<^verbatim>\<open>qso_id\<close>. The member \<^verbatim>\<open>_tcall\<close> with
  its accessor \<^verbatim>\<open>tcall()\<close> is the field \<open>qso_tcall\<close>, and so on: the prefix keeps the
  plain names free for the parameters and loop variables of the functions below, which
  the source calls \<^verbatim>\<open>tcall\<close>, \<^verbatim>\<open>rcall\<close>, \<^verbatim>\<open>qrg\<close>, \<^verbatim>\<open>rel_mins\<close>. \<^verbatim>\<open>time_t\<close> is a 64-bit
  integer that holds seconds since 1970; the program only compares and subtracts such
  values, far from its bounds, and they are modelled by \<^typ>\<open>int\<close>.
\<close>

record small_qso =
  qso_tcall :: string
  qso_rcall :: string
  qso_band :: HF_BAND
  qso_qrg :: int
  qso_time :: int
  qso_rel_mins :: int
  qso_id :: int

text \<open>
  \<^verbatim>\<open>inline bool operator<(const small_qso& sq) const { return (_time < sq._time); }\<close>
\<close>

definition small_qso_less :: "small_qso \<Rightarrow> small_qso \<Rightarrow> bool" where
  "small_qso_less a sq = (qso_time a < qso_time sq)"

text \<open>
  \<^verbatim>\<open>SORT(v)\<close> is \<^verbatim>\<open>std::sort(v.begin(), v.end(), std::less<>())\<close>, which compares with
  \<^verbatim>\<open>operator<\<close> above. \<^verbatim>\<open>std::sort\<close> promises a permutation in which no element is
  less than an earlier one; the order of elements that compare equivalent is left open by
  the standard. The model is an insertion sort with that comparison, one of the orders
  \<^verbatim>\<open>std::sort\<close> may produce (of equivalent elements, the one that was later in the
  vector comes first); no property below depends on the order of equivalent elements.
\<close>

fun sort_insert :: "small_qso \<Rightarrow> small_qso list \<Rightarrow> small_qso list" where
  "sort_insert x [] = [x]"
| "sort_insert x (y # ys) =
     (if small_qso_less x y then x # y # ys else y # sort_insert x ys)"

definition SORT :: "small_qso list \<Rightarrow> small_qso list" where
  "SORT v = foldr sort_insert v []"

text \<open>
  \<^verbatim>\<open>unordered_map<string /* tcall */, vector<small_qso>>\<close> is an association list with
  one entry per key. The order in which C++ iterates over an unordered container is not
  specified; the model iterates in the order of the list, and a new key goes to its end.

  \<^verbatim>\<open>m[key] += qso\<close> (\<^verbatim>\<open>operator[]\<close> creates an empty vector for a new key, the
  \<^verbatim>\<open>+=\<close> of macros.h appends) and \<^verbatim>\<open>m += { key, qsos }\<close> (macros.h:
  \<^verbatim>\<open>mum.insert(il)\<close>, which leaves the map as it is when the key is already there).
\<close>

type_synonym qso_map = "(string \<times> small_qso list) list"

fun append_qso :: "qso_map \<Rightarrow> string \<Rightarrow> small_qso \<Rightarrow> qso_map" where
  "append_qso [] key qso = [(key, [qso])]"
| "append_qso ((k, v) # m) key qso =
     (if k = key then (k, v @ [qso]) # m else (k, v) # append_qso m key qso)"

definition insert_entry :: "qso_map \<Rightarrow> string \<times> small_qso list \<Rightarrow> qso_map" where
  "insert_entry m il = (if fst il \<in> fst ` set m then m else m @ [il])"

text \<open>All the QSOs held in such a map, in iteration order.\<close>

definition all_of_map :: "qso_map \<Rightarrow> small_qso list" where
  "all_of_map m = concat (map snd m)"

text \<open>
  \<^verbatim>\<open>vector<small_qso> build_vec(const unordered_map<string, vector<small_qso>>& qsos_per_call)\<close>:
  every QSO of every entry is appended to \<^verbatim>\<open>rv\<close>, then \<^verbatim>\<open>SORT(rv)\<close>.
\<close>

definition build_vec :: "qso_map \<Rightarrow> small_qso list" where
  "build_vec qsos_per_call = SORT (all_of_map qsos_per_call)"

text \<open>
  \<^verbatim>\<open>unordered_set<string> tcalls(...)\<close>: the keys. An \<^verbatim>\<open>unordered_set<string>\<close> that
  the program only tests for membership is a \<^typ>\<open>string set\<close>; one that it also
  iterates over is a list without repetition, iterated in the order of the list (C++
  leaves the order open).
\<close>

definition tcalls :: "qso_map \<Rightarrow> string list" where
  "tcalls qsos_per_call = map fst qsos_per_call"

text \<open>
  \<^verbatim>\<open>build_minilog\<close>: \<^verbatim>\<open>rv[qso.band()][qso.tcall()] += qso\<close> for every QSO of every
  entry. The result is keyed by band; the model gives the per-band map as a function of
  the band, and \<^verbatim>\<open>rv.contains(band)\<close> is the test that this map is not empty (an entry
  for a band is only ever created together with a QSO in it).
\<close>

definition build_minilog :: "qso_map \<Rightarrow> HF_BAND \<Rightarrow> qso_map" where
  "build_minilog qsos_per_call b =
     foldl (\<lambda>rv qso. if qso_band qso = b then append_qso rv (qso_tcall qso) qso else rv) []
       (all_of_map qsos_per_call)"

definition minilog_contains :: "qso_map \<Rightarrow> HF_BAND \<Rightarrow> bool" where
  "minilog_contains qsos_per_call b = (build_minilog qsos_per_call b \<noteq> [])"

subsection \<open>Contest parameters\<close>

text \<open>
  \<^verbatim>\<open>class contest_parameters\<close>: directory, duration in hours, start time, and
  ``one second past the end of the contest'' (\<^verbatim>\<open>_directory\<close>, \<^verbatim>\<open>_hours\<close>,
  \<^verbatim>\<open>_t_start\<close>, \<^verbatim>\<open>_t_end\<close>).
\<close>

record contest_parameters =
  cp_directory :: string
  cp_hours :: int
  cp_t_start :: int
  cp_t_end :: int

text \<open>
  A C++ \<^verbatim>\<open>int\<close> has 32 bits. The constructor computes
  \<^verbatim>\<open>from_string<int>(fields[2]) * 3600\<close> in \<^verbatim>\<open>int\<close> before adding it to the
  \<^verbatim>\<open>time_t\<close>; \<open>int_of\<close> is the value a 32-bit two's complement register holds for a
  mathematical result, the identity between \<open>- 2\<^sup>3\<^sup>1\<close> and \<open>2\<^sup>3\<^sup>1 - 1\<close>. (Beyond that
  range C++ leaves the multiplication undefined; the theorem on the contest window stays
  inside it.)
\<close>

definition int_of :: "int \<Rightarrow> int" where
  "int_of x = sint (word_of_int x :: 32 word)"

text \<open>
  Functions that the program calls and that are not among the sources are parameters of
  the model, gathered in one record:
  \<^item> \<open>split_fields\<close> for \<^verbatim>\<open>split_string(squash(str), ' ')\<close>, \<open>from_string_int\<close> for
    \<^verbatim>\<open>from_string<int>\<close> (string\_functions.h), and \<open>start_seconds\<close> for the
    \<^verbatim>\<open>timegm\<close> (C library) of the date and time that the constructor reads from the
    second field with \<^verbatim>\<open>substring\<close> and \<^verbatim>\<open>from_string<int>\<close>;
  \<^item> \<open>compare_calls\<close>, the order of the keys of a \<^verbatim>\<open>CALL_MAP\<close>;
  \<^item> \<open>value_line\<close>, which \<^verbatim>\<open>main\<close> calls for the threshold of the top-percent
    truncation.

  The constructor \<^verbatim>\<open>contest_parameters(const std::string& str)\<close> splits the line into
  fields, calls \<^verbatim>\<open>exit(-1)\<close> unless there are exactly three and the second has at
  least ten characters, and then fills the members.
  \<open>contest_parameters_of\<close> is the assignment of the four members from the values read.
\<close>

record library_functions =
  split_fields :: "string \<Rightarrow> string list"
  start_seconds :: "string \<Rightarrow> int"
  from_string_int :: "string \<Rightarrow> int"
  compare_calls :: "string \<Rightarrow> string \<Rightarrow> bool"
  value_line :: "int list \<Rightarrow> int \<Rightarrow> int"

definition contest_parameters_of :: "string \<Rightarrow> int \<Rightarrow> int \<Rightarrow> contest_parameters" where
  "contest_parameters_of dir tt hrs =
     \<lparr> cp_directory = dir, cp_hours = hrs, cp_t_start = tt, cp_t_end = tt + int_of (hrs * 3600) \<rparr>"

definition make_contest_parameters :: "library_functions \<Rightarrow> string \<Rightarrow> failure + contest_parameters" where
  "make_contest_parameters fns str =
     (let fields = split_fields fns str
      in if length fields \<noteq> 3 then Inl Exit_minus_1
         else if length (fields ! 1) < 10 then Inl Exit_minus_1
         else Inr (contest_parameters_of (fields ! 0) (start_seconds fns (fields ! 1))
                     (from_string_int fns (fields ! 2))))"

text \<open>
  \<^verbatim>\<open>inline bool in_contest_period(const time_t & t) const
    { return (t >= _t_start) and (t < _t_end); }\<close>
\<close>

definition in_contest_period :: "contest_parameters \<Rightarrow> int \<Rightarrow> bool" where
  "in_contest_period cp t = (t \<ge> cp_t_start cp \<and> t < cp_t_end cp)"

section \<open>The log ingestor (first half of \<^verbatim>\<open>process_directory\<close>)\<close>

text \<open>
  The globals that the command line sets and the pipeline reads.
\<close>

record globals =
  CUTOFF_LIMIT :: int
  MAX_PARALLEL :: int
  TL_LIMIT :: int
  PC_OUTPUT :: int
  verbose :: bool

text \<open>
  Modelled from the spec: \<^verbatim>\<open>remove_from_end(s, e)\<close> is declared in
  \<^verbatim>\<open>string_functions.h\<close>, which is not among the sources. The specification says that
  ``trailing \<^verbatim>\<open>/QRP\<close> and \<^verbatim>\<open>/QRPP\<close> suffixes are stripped'': the string without
  the suffix \<open>e\<close> when it ends with \<open>e\<close>, the string itself otherwise.
\<close>

definition remove_from_end :: "string \<Rightarrow> string \<Rightarrow> string" where
  "remove_from_end s e =
     (if length e \<le> length s \<and> drop (length s - length e) s = e
      then take (length s - length e) s else s)"

definition legal_chars :: string where
  "legal_chars = ''ABCDEFGHIJKLMNOPQRSTUVWXYZ1234567890/''"

text \<open>C++ integer division truncates towards zero.\<close>

definition cpp_div :: "int \<Rightarrow> int \<Rightarrow> int" where
  "cpp_div a b = sgn a * sgn b * (\<bar>a\<bar> div \<bar>b\<bar>)"

text \<open>
  The body of the loop over the lines of one log, for a line that starts with
  \<^verbatim>\<open>QSO:\<close>. The argument \<open>qso\<close> is the value that the constructor
  \<^verbatim>\<open>small_qso qso { line }\<close> has built from the line (the constructor parses the
  text with functions that are not among the sources; a line it rejects gives the default
  \<^verbatim>\<open>small_qso\<close>, whose \<^verbatim>\<open>tcall\<close> is empty and whose time is 0). Every \<^verbatim>\<open>continue\<close>
  leaves \<^verbatim>\<open>tcall_qsos\<close> as it was. \<^verbatim>\<open>rel_mins\<close> is an \<^verbatim>\<open>int\<close> set from a \<^verbatim>\<open>time_t\<close>
  quotient.
\<close>

definition ingest_qso :: "contest_parameters \<Rightarrow> qso_map \<Rightarrow> small_qso \<Rightarrow> qso_map" where
  "ingest_qso cp tcall_qsos qso =
     (if \<not> in_contest_period cp (qso_time qso) then tcall_qsos
      else
        let qso1 = qso\<lparr> qso_rel_mins := int_of (cpp_div (qso_time qso - cp_t_start cp) 60) \<rparr>
        in if qso_tcall qso1 = [] then tcall_qsos
           else
             let qso2 = qso1\<lparr> qso_tcall := remove_from_end (qso_tcall qso1) ''/QRP'' \<rparr>;
                 qso3 = qso2\<lparr> qso_rcall := remove_from_end (qso_rcall qso2) ''/QRP'' \<rparr>;
                 qso4 = qso3\<lparr> qso_tcall := remove_from_end (qso_tcall qso3) ''/QRPP'' \<rparr>;
                 qso5 = qso4\<lparr> qso_rcall := remove_from_end (qso_rcall qso4) ''/QRPP'' \<rparr>;
                 qt = qso_tcall qso5;
                 qr = qso_rcall qso5
             in if length qt < 3 \<or> length qr < 3 then tcall_qsos
                else if (\<exists>c \<in> set qt. c \<notin> set legal_chars) \<or> (\<exists>c \<in> set qr. c \<notin> set legal_chars)
                then tcall_qsos
                else if qso_tcall qso5 = qso_rcall qso5 then tcall_qsos
                else append_qso tcall_qsos (qso_tcall qso5) qso5)"

text \<open>
  One log file is the list of the QSOs constructed from its \<^verbatim>\<open>QSO:\<close> lines, in the
  order of the lines; \<^verbatim>\<open>tcall_qsos\<close> starts empty for each file.
\<close>

definition ingest_file :: "contest_parameters \<Rightarrow> small_qso list \<Rightarrow> qso_map" where
  "ingest_file cp logfile = foldl (ingest_qso cp) [] logfile"

text \<open>
  The state that the loop over the files builds, with the prefix \<open>st_\<close>: \<^verbatim>\<open>all_qsos\<close>, \<^verbatim>\<open>scp_calls\<close>,
  \<^verbatim>\<open>n_valid_logs\<close>.

  \<^verbatim>\<open>if (!tcall_qsos.empty())
  { n_valid_logs++;
    for (auto& [ tcall, qsos ] : tcall_qsos)
    { all_qsos += { tcall, qsos };
      if (ssize(qsos) >= TL_LIMIT) scp_calls += tcall; } }\<close>
\<close>

record ingest_state =
  st_all_qsos :: qso_map
  st_scp_calls :: "string set"
  st_n_valid_logs :: int

definition merge_entry :: "globals \<Rightarrow> ingest_state \<Rightarrow> string \<times> small_qso list \<Rightarrow> ingest_state" where
  "merge_entry g st entry =
     st\<lparr> st_all_qsos := insert_entry (st_all_qsos st) entry,
         st_scp_calls := (if int (length (snd entry)) \<ge> TL_LIMIT g
                       then insert (fst entry) (st_scp_calls st) else st_scp_calls st) \<rparr>"

definition merge_file :: "globals \<Rightarrow> contest_parameters \<Rightarrow> ingest_state \<Rightarrow> small_qso list \<Rightarrow> ingest_state" where
  "merge_file g cp st logfile =
     (let tcall_qsos = ingest_file cp logfile
      in if tcall_qsos \<noteq> []
         then foldl (merge_entry g) (st\<lparr> st_n_valid_logs := st_n_valid_logs st + 1 \<rparr>) tcall_qsos
         else st)"

definition ingest :: "globals \<Rightarrow> contest_parameters \<Rightarrow> small_qso list list \<Rightarrow> ingest_state" where
  "ingest g cp logfiles =
     foldl (merge_file g cp) \<lparr> st_all_qsos = [], st_scp_calls = {}, st_n_valid_logs = 0 \<rparr> logfiles"

section \<open>The band pruner: \<^verbatim>\<open>process_band\<close> and its helpers (drscp.cpp)\<close>

text \<open>
  \<^verbatim>\<open>constexpr int CLOCK_SKEW { 2 }; constexpr int FREQ_SKEW { 2 };
  constexpr int RUN_TIME_RANGE { 5 };\<close>
\<close>

definition CLOCK_SKEW :: int where "CLOCK_SKEW = 2"
definition FREQ_SKEW :: int where "FREQ_SKEW = 2"
definition RUN_TIME_RANGE :: int where "RUN_TIME_RANGE = 5"

subsection \<open>Containers and iterators\<close>

text \<open>
  \<^verbatim>\<open>v.at(n)\<close> on a vector and \<^verbatim>\<open>m.at(k)\<close> on a map throw \<^verbatim>\<open>std::out_of_range\<close>
  when the index or key is not there. The program indexes vectors with \<^verbatim>\<open>int\<close> and
  \<^verbatim>\<open>time_t\<close> values; a negative one converts to a huge unsigned index, which is out
  of range as well.
\<close>

definition at_index :: "'a list \<Rightarrow> int \<Rightarrow> failure + 'a" where
  "at_index v n = (if 0 \<le> n \<and> n < int (length v) then Inr (v ! nat n) else Inl Out_of_range)"

definition at_key :: "('k \<times> 'v) list \<Rightarrow> 'k \<Rightarrow> failure + 'v" where
  "at_key m k = (case map_of m k of None \<Rightarrow> Inl Out_of_range | Some v \<Rightarrow> Inr v)"

text \<open>
  A \<^verbatim>\<open>vector<small_qso>::const_iterator\<close> is the position it points to: a number
  between 0 and the length of the vector, the length being \<^verbatim>\<open>end()\<close>. The half-open
  range between two iterators of \<open>vec\<close>:
\<close>

definition range_of :: "'a list \<Rightarrow> nat \<Rightarrow> nat \<Rightarrow> 'a list" where
  "range_of vec first_it last_it = take (last_it - first_it) (drop first_it vec)"

text \<open>
  \<^verbatim>\<open>lower_bound(first, vec.end(), target, [] (const auto& element, const auto& target)
     { return (element.rel_mins() < target); })\<close> and
  \<^verbatim>\<open>upper_bound(first, vec.cend(), target, [] (const auto& target, const auto& element)
     { return (target < element.rel_mins()); })\<close>.
  The standard library searches by bisection and requires the range to be partitioned by
  the comparison (here: relative minutes that never decrease along the vector). On such a
  range \<^verbatim>\<open>lower_bound\<close> returns the first position whose element is not less than
  the target and \<^verbatim>\<open>upper_bound\<close> the first position whose element is greater, or the
  end; the model returns these positions. Every vector that the program searches is in the
  order \<^verbatim>\<open>SORT\<close> has left it, by time, and the ingestor derives the relative minutes
  from the time.
\<close>

definition lower_bound :: "small_qso list \<Rightarrow> nat \<Rightarrow> int \<Rightarrow> nat" where
  "lower_bound vec first target =
     first + length (takeWhile (\<lambda>element. qso_rel_mins element < target) (drop first vec))"

definition upper_bound :: "small_qso list \<Rightarrow> nat \<Rightarrow> int \<Rightarrow> nat" where
  "upper_bound vec first target =
     first + length (takeWhile (\<lambda>element. \<not> target < qso_rel_mins element) (drop first vec))"

text \<open>
  \<^verbatim>\<open>time_map(vec, max_rel_mins)\<close>: empty for an empty vector; otherwise one iterator
  for each minute from 0 to \<^verbatim>\<open>max_rel_mins\<close>, each search starting where the last one
  ended, and \<^verbatim>\<open>vec.end()\<close> as the last entry. Before the loop,
  \<^verbatim>\<open>rv.reserve(time_map_size)\<close> with the \<^verbatim>\<open>int\<close> \<^verbatim>\<open>max_rel_mins + 1\<close>: a negative
  size converts to an unsigned number beyond \<^verbatim>\<open>max_size()\<close>, and \<^verbatim>\<open>reserve\<close> throws
  \<^verbatim>\<open>std::length_error\<close>.
\<close>

function time_map_loop :: "small_qso list \<Rightarrow> int \<Rightarrow> int \<Rightarrow> nat \<Rightarrow> nat list \<Rightarrow> nat list" where
  "time_map_loop vec max_rel_mins minutes last_start rv =
     (if minutes \<le> max_rel_mins
      then (let it = lower_bound vec last_start minutes
            in time_map_loop vec max_rel_mins (minutes + 1) it (rv @ [it]))
      else rv)"
  by pat_completeness auto
termination
  by (relation "measure (\<lambda>(vec, max_rel_mins, minutes, last_start, rv). nat (max_rel_mins + 1 - minutes))") auto

declare time_map_loop.simps [simp del]

definition time_map :: "small_qso list \<Rightarrow> int \<Rightarrow> failure + nat list" where
  "time_map vec max_rel_mins =
     (if vec = [] then Inr []
      else if max_rel_mins + 1 < 0 then Inl Length_error
      else Inr (time_map_loop vec max_rel_mins 0 0 [] @ [length vec]))"

text \<open>\<^verbatim>\<open>get_bounds(target_minutes, minimum_minutes, maximum_minutes, ALLOWED_SKEW, vec)\<close>.\<close>

definition get_bounds :: "int \<Rightarrow> int \<Rightarrow> int \<Rightarrow> int \<Rightarrow> small_qso list \<Rightarrow> nat \<times> nat" where
  "get_bounds target_minutes minimum_minutes maximum_minutes ALLOWED_SKEW vec =
     (let lower_target_minutes = max (target_minutes - ALLOWED_SKEW) minimum_minutes;
          upper_target_minutes = min (target_minutes + ALLOWED_SKEW) maximum_minutes;
          lb = lower_bound vec 0 lower_target_minutes;
          ub = upper_bound vec lb upper_target_minutes
      in (lb, ub))"

subsection \<open>Running stations and frequency matches\<close>

text \<open>
  \<^verbatim>\<open>call_has_good_freq_info\<close> (drscp.h) and \<^verbatim>\<open>is_stn_running\<close>. The parameter
  \<^verbatim>\<open>tcalls\<close> of the source is \<open>all_tcalls\<close> here (\<open>tcalls\<close> is the function above).
  \<^verbatim>\<open>ANY_OF(lb, ub, pred)\<close> is \<^const>\<open>list_ex\<close> over the range.
\<close>

definition call_has_good_freq_info :: "string \<Rightarrow> string set \<Rightarrow> string set \<Rightarrow> bool" where
  "call_has_good_freq_info call calls_with_no_freq_info calls_with_poor_freq_info =
     (call \<notin> calls_with_no_freq_info \<and> call \<notin> calls_with_poor_freq_info)"

definition is_stn_running ::
  "string \<Rightarrow> int \<Rightarrow> int \<Rightarrow> string list \<Rightarrow> string set \<Rightarrow> string set \<Rightarrow> qso_map \<Rightarrow>
   small_qso list \<Rightarrow> nat list \<Rightarrow> int \<Rightarrow> int \<Rightarrow> string \<Rightarrow> failure + bool" where
  "is_stn_running call rel_mins qrg all_tcalls calls_with_no_freq_info calls_with_poor_freq_info
       all_qsos_this_band all_vec all_time_map minimum_minutes maximum_minutes ignore_call =
     (if call \<notin> set all_tcalls then Inr False
      else
        let target_minutes = rel_mins
        in if call_has_good_freq_info call calls_with_no_freq_info calls_with_poor_freq_info
           then (case at_key all_qsos_this_band call of
                   Inl e \<Rightarrow> Inl e
                 | Inr qsos_of_call \<Rightarrow>
                     (case get_bounds target_minutes minimum_minutes maximum_minutes CLOCK_SKEW qsos_of_call of
                        (lb, ub) \<Rightarrow>
                          Inr (list_ex (\<lambda>qso. \<bar>qrg - qso_qrg qso\<bar> \<le> FREQ_SKEW) (range_of qsos_of_call lb ub))))
           else
             let lower_target_minutes = max (target_minutes - CLOCK_SKEW) minimum_minutes;
                 upper_target_minutes = min (target_minutes + CLOCK_SKEW) maximum_minutes
             in (case at_index all_time_map lower_target_minutes of
                   Inl e \<Rightarrow> Inl e
                 | Inr first_it \<Rightarrow>
                     (case at_index all_time_map (upper_target_minutes + 1) of
                        Inl e \<Rightarrow> Inl e
                      | Inr last_it \<Rightarrow>
                          Inr (list_ex (\<lambda>qso. qso_tcall qso \<noteq> ignore_call \<and> qso_rcall qso = call \<and>
                                              \<bar>qrg - qso_qrg qso\<bar> \<le> FREQ_SKEW)
                                 (range_of all_vec first_it last_it)))))"

text \<open>
  The lambda \<^verbatim>\<open>frequency_match\<close> of \<^verbatim>\<open>process_band\<close>, which captures the two sets
  of calls.
\<close>

definition frequency_match :: "string set \<Rightarrow> string set \<Rightarrow> small_qso \<Rightarrow> small_qso \<Rightarrow> bool \<Rightarrow> bool" where
  "frequency_match calls_with_no_freq_info calls_with_poor_freq_info qso1 qso2 def =
     (if def
      then (qso_tcall qso1 \<in> calls_with_no_freq_info \<or> qso_tcall qso2 \<in> calls_with_no_freq_info) \<or>
           (qso_tcall qso1 \<in> calls_with_poor_freq_info \<or> qso_tcall qso2 \<in> calls_with_poor_freq_info) \<or>
           \<bar>qso_qrg qso1 - qso_qrg qso2\<bar> \<le> FREQ_SKEW
      else (qso_tcall qso1 \<notin> calls_with_no_freq_info \<and> qso_tcall qso2 \<notin> calls_with_no_freq_info) \<and>
           \<bar>qso_qrg qso1 - qso_qrg qso2\<bar> \<le> FREQ_SKEW)"

subsection \<open>Pass A: busts that another log confirms\<close>

text \<open>
  The predicate that \<^verbatim>\<open>find_if\<close> applies to each \<^verbatim>\<open>tqso\<close> of the window, for the
  pruned QSO \<^verbatim>\<open>rqso\<close>.
\<close>

definition bust_in_other_log :: "string set \<Rightarrow> string set \<Rightarrow> small_qso \<Rightarrow> small_qso \<Rightarrow> bool" where
  "bust_in_other_log calls_with_no_freq_info calls_with_poor_freq_info rqso tqso =
     (frequency_match calls_with_no_freq_info calls_with_poor_freq_info tqso rqso True \<and>
      ((is_bust (qso_tcall tqso) (qso_rcall rqso) \<and> qso_rcall tqso = qso_tcall rqso) \<or>
       (is_bust (qso_tcall rqso) (qso_rcall tqso) \<and> is_bust (qso_tcall tqso) (qso_rcall rqso))))"

text \<open>
  The loop over \<^verbatim>\<open>pruned_rcall_targets\<close>: \<^verbatim>\<open>find_if\<close> over
  \<^verbatim>\<open>[all_time_map.at(lower_target_minutes), all_time_map.at(upper_target_minutes + 1))\<close>
  finds an element iff the predicate holds somewhere in the range; then the identifier of
  \<^verbatim>\<open>rqso\<close> joins \<^verbatim>\<open>ids_to_remove\<close> (an \<^verbatim>\<open>unordered_set<int>\<close>, tested for
  membership only).
\<close>

fun mark_targets ::
  "string set \<Rightarrow> string set \<Rightarrow> small_qso list \<Rightarrow> nat list \<Rightarrow> int \<Rightarrow> int \<Rightarrow>
   small_qso list \<Rightarrow> int set \<Rightarrow> failure + int set" where
  "mark_targets no_freq poor_freq all_vec all_time_map lower_target_minutes upper_target_minutes
       [] ids_to_remove = Inr ids_to_remove"
| "mark_targets no_freq poor_freq all_vec all_time_map lower_target_minutes upper_target_minutes
       (rqso # pruned_rcall_targets) ids_to_remove =
     (case at_index all_time_map lower_target_minutes of
        Inl e \<Rightarrow> Inl e
      | Inr first_it \<Rightarrow>
          (case at_index all_time_map (upper_target_minutes + 1) of
             Inl e \<Rightarrow> Inl e
           | Inr last_it \<Rightarrow>
               mark_targets no_freq poor_freq all_vec all_time_map
                 lower_target_minutes upper_target_minutes pruned_rcall_targets
                 (if list_ex (bust_in_other_log no_freq poor_freq rqso)
                       (range_of all_vec first_it last_it)
                  then insert (qso_id rqso) ids_to_remove else ids_to_remove)))"

text \<open>
  The loop \<^verbatim>\<open>for (int target_rel_mins { 0 }; target_rel_mins <= max_rel_mins;
  ++target_rel_mins)\<close>, with the targets of the minute copied from
  \<^verbatim>\<open>[pruned_time_map.at(target_rel_mins), pruned_time_map.at(target_rel_mins + 1))\<close>.
\<close>

function pass_a_loop ::
  "string set \<Rightarrow> string set \<Rightarrow> small_qso list \<Rightarrow> small_qso list \<Rightarrow> nat list \<Rightarrow> nat list \<Rightarrow>
   int \<Rightarrow> int \<Rightarrow> int set \<Rightarrow> failure + int set" where
  "pass_a_loop no_freq poor_freq pruned_vec all_vec all_time_map pruned_time_map max_rel_mins
       target_rel_mins ids_to_remove =
     (if target_rel_mins \<le> max_rel_mins
      then
        let lower_target_minutes = max (target_rel_mins - CLOCK_SKEW) 0;
            upper_target_minutes = min (target_rel_mins + CLOCK_SKEW) max_rel_mins
        in (case at_index pruned_time_map target_rel_mins of
              Inl e \<Rightarrow> Inl e
            | Inr first_it \<Rightarrow>
                (case at_index pruned_time_map (target_rel_mins + 1) of
                   Inl e \<Rightarrow> Inl e
                 | Inr last_it \<Rightarrow>
                     (case mark_targets no_freq poor_freq all_vec all_time_map
                             lower_target_minutes upper_target_minutes
                             (range_of pruned_vec first_it last_it) ids_to_remove of
                        Inl e \<Rightarrow> Inl e
                      | Inr ids \<Rightarrow>
                          pass_a_loop no_freq poor_freq pruned_vec all_vec all_time_map
                            pruned_time_map max_rel_mins (target_rel_mins + 1) ids)))
      else Inr ids_to_remove)"
  by pat_completeness auto
termination
  by (relation "measure (\<lambda>(no_freq, poor_freq, pruned_vec, all_vec, all_time_map,
                             pruned_time_map, max_rel_mins, target_rel_mins, ids_to_remove).
                           nat (max_rel_mins + 1 - target_rel_mins))") auto

declare pass_a_loop.simps [simp del]

subsection \<open>Pass B: busts of a running entrant\<close>

text \<open>
  \<^verbatim>\<open>for (const auto& qso : pruned_vec)
    for (const auto& tcall : all_tcalls)
      if (!ids_to_remove.contains(qso.id()))
        if (is_bust(tcall, qso.rcall()))
        { const bool running { is_stn_running(tcall, qso.rel_mins(), qso.qrg(), all_tcalls, ...,
                                               all_time_map, 0, max_rel_mins, qso.tcall()) };
          if (running) ids_to_remove += qso.id(); }\<close>
\<close>

fun running_bust_tcalls ::
  "string set \<Rightarrow> string set \<Rightarrow> qso_map \<Rightarrow> small_qso list \<Rightarrow> nat list \<Rightarrow> int \<Rightarrow> string list \<Rightarrow>
   small_qso \<Rightarrow> string list \<Rightarrow> int set \<Rightarrow> failure + int set" where
  "running_bust_tcalls no_freq poor_freq all_qsos_this_band all_vec all_time_map max_rel_mins
       all_tcalls qso [] ids_to_remove = Inr ids_to_remove"
| "running_bust_tcalls no_freq poor_freq all_qsos_this_band all_vec all_time_map max_rel_mins
       all_tcalls qso (tcall # rest) ids_to_remove =
     (if qso_id qso \<notin> ids_to_remove \<and> is_bust tcall (qso_rcall qso)
      then (case is_stn_running tcall (qso_rel_mins qso) (qso_qrg qso) all_tcalls no_freq poor_freq
                   all_qsos_this_band all_vec all_time_map 0 max_rel_mins (qso_tcall qso) of
              Inl e \<Rightarrow> Inl e
            | Inr running \<Rightarrow>
                running_bust_tcalls no_freq poor_freq all_qsos_this_band all_vec all_time_map
                  max_rel_mins all_tcalls qso rest
                  (if running then insert (qso_id qso) ids_to_remove else ids_to_remove))
      else running_bust_tcalls no_freq poor_freq all_qsos_this_band all_vec all_time_map
             max_rel_mins all_tcalls qso rest ids_to_remove)"

fun pass_b_loop ::
  "string set \<Rightarrow> string set \<Rightarrow> qso_map \<Rightarrow> small_qso list \<Rightarrow> nat list \<Rightarrow> int \<Rightarrow> string list \<Rightarrow>
   small_qso list \<Rightarrow> int set \<Rightarrow> failure + int set" where
  "pass_b_loop no_freq poor_freq all_qsos_this_band all_vec all_time_map max_rel_mins
       all_tcalls [] ids_to_remove = Inr ids_to_remove"
| "pass_b_loop no_freq poor_freq all_qsos_this_band all_vec all_time_map max_rel_mins
       all_tcalls (qso # pruned_vec) ids_to_remove =
     (case running_bust_tcalls no_freq poor_freq all_qsos_this_band all_vec all_time_map
             max_rel_mins all_tcalls qso all_tcalls ids_to_remove of
        Inl e \<Rightarrow> Inl e
      | Inr ids \<Rightarrow>
          pass_b_loop no_freq poor_freq all_qsos_this_band all_vec all_time_map max_rel_mins
            all_tcalls pruned_vec ids)"

subsection \<open>Pass C: busts of a running non-entrant\<close>

text \<open>
  \<^verbatim>\<open>rcall_logs[rcall]\<close> reads the log of a received call, an empty vector when there
  is none (\<^verbatim>\<open>operator[]\<close> creates it).
\<close>

definition log_of :: "qso_map \<Rightarrow> string \<Rightarrow> small_qso list" where
  "log_of m key = (case map_of m key of None \<Rightarrow> [] | Some v \<Rightarrow> v)"

text \<open>
  \<^verbatim>\<open>possible_busts(calls)\<close> (drscp.h): for every pair of positions \<open>it1 < it2\<close> of
  the container, \<^verbatim>\<open>if (is_bust(call1, call2)) { rv[call1] += call2; rv[call2] += call1; }\<close>.
  The result maps a call to an \<^verbatim>\<open>unordered_set<string>\<close>, which the pruner iterates
  over: a list without repetition.
\<close>

type_synonym bust_map = "(string \<times> string list) list"

fun add_bust :: "bust_map \<Rightarrow> string \<Rightarrow> string \<Rightarrow> bust_map" where
  "add_bust [] key call = [(key, [call])]"
| "add_bust ((k, v) # m) key call =
     (if k = key then (k, (if call \<in> set v then v else v @ [call])) # m
      else (k, v) # add_bust m key call)"

fun possible_busts_inner :: "string \<Rightarrow> string list \<Rightarrow> bust_map \<Rightarrow> bust_map" where
  "possible_busts_inner call1 [] rv = rv"
| "possible_busts_inner call1 (call2 # rest) rv =
     possible_busts_inner call1 rest
       (if is_bust call1 call2 then add_bust (add_bust rv call1 call2) call2 call1 else rv)"

fun possible_busts_outer :: "string list \<Rightarrow> bust_map \<Rightarrow> bust_map" where
  "possible_busts_outer [] rv = rv"
| "possible_busts_outer (call1 # rest) rv =
     possible_busts_outer rest (possible_busts_inner call1 rest rv)"

definition possible_busts :: "string list \<Rightarrow> bust_map" where
  "possible_busts calls = possible_busts_outer calls []"

definition busts_of :: "bust_map \<Rightarrow> string \<Rightarrow> string list" where
  "busts_of m key = (case map_of m key of None \<Rightarrow> [] | Some v \<Rightarrow> v)"

text \<open>
  \<^verbatim>\<open>count_values<string>\<close> (count\_values.h) is an unordered map from values to
  counts; \<^verbatim>\<open>histogram += v\<close> is \<^verbatim>\<open>(*p)[v]++\<close>. The counts are \<^verbatim>\<open>int32_t\<close> and
  count QSOs of one band of one contest.
\<close>

type_synonym count_values = "(string \<times> int) list"

fun count_value :: "count_values \<Rightarrow> string \<Rightarrow> count_values" where
  "count_value [] v = [(v, 1)]"
| "count_value ((k, n) # h) v = (if k = v then (k, n + 1) # h else (k, n) # count_value h v)"

definition histogram_of :: "small_qso list \<Rightarrow> count_values" where
  "histogram_of pruned_vec = foldl (\<lambda>histogram qso. count_value histogram (qso_rcall qso)) [] pruned_vec"

text \<open>
  \<^verbatim>\<open>sorted_invert\<close>: \<^verbatim>\<open>rv[n] += value\<close> for each entry of the histogram, in a
  \<^verbatim>\<open>std::map<int, std::set<string>, std::greater<int>>\<close>: the counts in decreasing order,
  the calls of one count in the increasing order of \<^verbatim>\<open>std::string\<close> (bytes compared as
  unsigned numbers, which is the order of \<^typ>\<open>string\<close> here).
\<close>

fun set_insert :: "string \<Rightarrow> string list \<Rightarrow> string list" where
  "set_insert v [] = [v]"
| "set_insert v (w # ws) =
     (if v = w then w # ws else if v < w then v # w # ws else w # set_insert v ws)"

fun invert_entry :: "(int \<times> string list) list \<Rightarrow> int \<Rightarrow> string \<Rightarrow> (int \<times> string list) list" where
  "invert_entry [] n v = [(n, [v])]"
| "invert_entry ((k, s) # rv) n v =
     (if n = k then (k, set_insert v s) # rv
      else if n > k then (n, [v]) # (k, s) # rv
      else (k, s) # invert_entry rv n v)"

definition sorted_invert :: "count_values \<Rightarrow> (int \<times> string list) list" where
  "sorted_invert histogram = foldl (\<lambda>rv (v, n). invert_entry rv n v) [] histogram"

text \<open>
  For one QSO \<^verbatim>\<open>rqso\<close> of the log of \<^verbatim>\<open>rcall\<close>: is there, within
  \<^verbatim>\<open>RUN_TIME_RANGE\<close> minutes in the combined log of \<^verbatim>\<open>rcall\<close> and its possible
  busts, a QSO with another received call on a matching frequency?
\<close>

definition run_qso :: "string set \<Rightarrow> string set \<Rightarrow> int \<Rightarrow> string \<Rightarrow> small_qso list \<Rightarrow> small_qso \<Rightarrow> bool" where
  "run_qso no_freq poor_freq max_rel_mins rcall log_of_rcall_and_busts rqso =
     (case get_bounds (qso_rel_mins rqso) 0 max_rel_mins RUN_TIME_RANGE log_of_rcall_and_busts of
        (lb, ub) \<Rightarrow>
          list_ex (\<lambda>qso. if qso_rcall qso = rcall then False
                         else frequency_match no_freq poor_freq qso rqso False)
            (range_of log_of_rcall_and_busts lb ub))"

text \<open>
  The body of the loop over the received calls: the log of \<^verbatim>\<open>rcall\<close>, then the logs
  of its possible busts appended, \<^verbatim>\<open>SORT\<close>, and the test of each of its QSOs.
\<close>

definition mark_rcall :: "string set \<Rightarrow> string set \<Rightarrow> int \<Rightarrow> qso_map \<Rightarrow> bust_map \<Rightarrow> int set \<Rightarrow> string \<Rightarrow> int set" where
  "mark_rcall no_freq poor_freq max_rel_mins rcall_logs possible_rcall_busts ids_to_remove rcall =
     (let rcall_busts = busts_of possible_rcall_busts rcall;
          log_of_rcall_and_busts =
            SORT (foldl (\<lambda>combined rcall_bust. combined @ log_of rcall_logs rcall_bust)
                    (log_of rcall_logs rcall) rcall_busts)
      in foldl (\<lambda>ids rqso.
                  if run_qso no_freq poor_freq max_rel_mins rcall log_of_rcall_and_busts rqso
                  then insert (qso_id rqso) ids else ids)
           ids_to_remove (log_of rcall_logs rcall))"

text \<open>
  Pass C as a whole: the pseudo-logs keyed by received call (each sorted), the possible
  busts among the received calls, the histogram and its inversion, and the loops over the
  counts and over the calls of each count. The pass throws nothing.
\<close>

definition pass_c :: "string set \<Rightarrow> string set \<Rightarrow> int \<Rightarrow> small_qso list \<Rightarrow> int set" where
  "pass_c no_freq poor_freq max_rel_mins pruned_vec =
     (let rcall_logs0 = foldl (\<lambda>m qso. append_qso m (qso_rcall qso) qso) [] pruned_vec;
          rcalls = map fst rcall_logs0;
          rcall_logs = map (\<lambda>(rcall, rcall_log). (rcall, SORT rcall_log)) rcall_logs0;
          possible_rcall_busts = possible_busts rcalls;
          histogram = histogram_of pruned_vec;
          inv_histogram = sorted_invert histogram
      in foldl (\<lambda>ids (n, rcalls_this_count).
                  foldl (mark_rcall no_freq poor_freq max_rel_mins rcall_logs possible_rcall_busts)
                    ids rcalls_this_count)
           {} inv_histogram)"

subsection \<open>Pass D: the cutoff\<close>

text \<open>
  When \<^verbatim>\<open>verbose\<close> is off:
  \<^verbatim>\<open>erase_if(pruned_vec, [&histogram] (const small_qso& qso)
     { return (histogram.at(qso.rcall()) <= CUTOFF_LIMIT); });\<close>
\<close>

fun erase_below_cutoff :: "count_values \<Rightarrow> int \<Rightarrow> small_qso list \<Rightarrow> failure + small_qso list" where
  "erase_below_cutoff histogram cutoff [] = Inr []"
| "erase_below_cutoff histogram cutoff (qso # pruned_vec) =
     (case at_key histogram (qso_rcall qso) of
        Inl e \<Rightarrow> Inl e
      | Inr n \<Rightarrow>
          (case erase_below_cutoff histogram cutoff pruned_vec of
             Inl e \<Rightarrow> Inl e
           | Inr rest \<Rightarrow> Inr (if n \<le> cutoff then rest else qso # rest)))"

text \<open>
  When \<^verbatim>\<open>verbose\<close> is on:
  \<^verbatim>\<open>for (auto& [ rcall, count ] : histogram)
    if (count <= CUTOFF_LIMIT)
      erase_if(pruned_vec, [&rcall] (const small_qso& qso) { return (qso.rcall() == rcall); });\<close>
\<close>

definition erase_rcalls_verbose :: "count_values \<Rightarrow> int \<Rightarrow> small_qso list \<Rightarrow> small_qso list" where
  "erase_rcalls_verbose histogram cutoff pruned_vec =
     foldl (\<lambda>vec (rcall, n). if n \<le> cutoff then filter (\<lambda>qso. \<not> qso_rcall qso = rcall) vec else vec)
       pruned_vec histogram"

text \<open>
  \<^verbatim>\<open>histogram.clear(); FOR_ALL(pruned_vec, ... histogram += qso.rcall() ...)\<close> and one
  of the two erasures.
\<close>

definition pass_d :: "globals \<Rightarrow> small_qso list \<Rightarrow> failure + small_qso list" where
  "pass_d g pruned_vec =
     (let histogram = histogram_of pruned_vec
      in if verbose g then Inr (erase_rcalls_verbose histogram (CUTOFF_LIMIT g) pruned_vec)
         else erase_below_cutoff histogram (CUTOFF_LIMIT g) pruned_vec)"

subsection \<open>The whole pruner\<close>

text \<open>
  \<^verbatim>\<open>erase_if(pruned_vec, [&ids_to_remove] (const small_qso& qso)
     { return ids_to_remove.contains(qso.id()); });\<close>
\<close>

definition erase_ids :: "int set \<Rightarrow> small_qso list \<Rightarrow> small_qso list" where
  "erase_ids ids_to_remove pruned_vec = filter (\<lambda>qso. qso_id qso \<notin> ids_to_remove) pruned_vec"

text \<open>
  \<^verbatim>\<open>process_band\<close> up to its last erasure: the vector \<^verbatim>\<open>pruned_vec\<close> after passes
  A to D. The statements that only print (under \<^verbatim>\<open>verbose\<close> or \<^verbatim>\<open>tracing\<close>) are
  left out. \<^verbatim>\<open>all_vec[0]\<close>, read for the name of the band, is undefined for an empty
  \<^verbatim>\<open>all_vec\<close>.
\<close>

definition prune_band ::
  "globals \<Rightarrow> qso_map \<Rightarrow> qso_map \<Rightarrow> string set \<Rightarrow> string set \<Rightarrow> int \<Rightarrow> failure + small_qso list" where
  "prune_band g pruned_qsos_this_band all_qsos_this_band calls_with_no_freq_info
       calls_with_poor_freq_info max_rel_mins =
     (let pruned_vec = build_vec pruned_qsos_this_band;
          all_vec = build_vec all_qsos_this_band
      in if all_vec = [] then Inl Undefined_behaviour
         else
           let all_tcalls = tcalls all_qsos_this_band
           in (case time_map all_vec max_rel_mins of
                 Inl e \<Rightarrow> Inl e
               | Inr all_time_map \<Rightarrow>
           (case time_map pruned_vec max_rel_mins of
                 Inl e \<Rightarrow> Inl e
               | Inr pruned_time_map \<Rightarrow>
           (case pass_a_loop calls_with_no_freq_info calls_with_poor_freq_info pruned_vec
                     all_vec all_time_map pruned_time_map max_rel_mins 0 {} of
                 Inl e \<Rightarrow> Inl e
               | Inr ids_a \<Rightarrow>
                   let pruned_vec_a = erase_ids ids_a pruned_vec
                   in (case pass_b_loop calls_with_no_freq_info calls_with_poor_freq_info
                             all_qsos_this_band all_vec all_time_map max_rel_mins all_tcalls
                             pruned_vec_a {} of
                         Inl e \<Rightarrow> Inl e
                       | Inr ids_b \<Rightarrow>
                           let pruned_vec_b = erase_ids ids_b pruned_vec_a;
                               ids_c = pass_c calls_with_no_freq_info calls_with_poor_freq_info
                                         max_rel_mins pruned_vec_b;
                               pruned_vec_c = erase_ids ids_c pruned_vec_b
                           in pass_d g pruned_vec_c)))))"

text \<open>
  \<^verbatim>\<open>FOR_ALL(pruned_vec, [&local_scp_calls] (const small_qso& qso)
     { local_scp_calls += qso.rcall(); } ); return local_scp_calls;\<close>
\<close>

definition process_band ::
  "globals \<Rightarrow> qso_map \<Rightarrow> qso_map \<Rightarrow> string set \<Rightarrow> string set \<Rightarrow> int \<Rightarrow> failure + string set" where
  "process_band g pruned_qsos_this_band all_qsos_this_band calls_with_no_freq_info
       calls_with_poor_freq_info max_rel_mins =
     (case prune_band g pruned_qsos_this_band all_qsos_this_band calls_with_no_freq_info
             calls_with_poor_freq_info max_rel_mins of
        Inl e \<Rightarrow> Inl e
      | Inr pruned_vec \<Rightarrow> Inr (qso_rcall ` set pruned_vec))"

text \<open>
  The number of QSOs of a vector that have a given received call, for the statements about
  the cutoff.
\<close>

definition occurrences :: "small_qso list \<Rightarrow> string \<Rightarrow> int" where
  "occurrences vec rcall = int (length (filter (\<lambda>qso. qso_rcall qso = rcall) vec))"

section \<open>The frequency-quality classifier: \<^verbatim>\<open>calls_with_unreliable_freq\<close>\<close>

subsection \<open>Single and double precision\<close>

text \<open>
  The classifier ends with
  \<^verbatim>\<open>const float good_fraction { float(good) / total };
  if (good_fraction < 0.9) rv += tcall;\<close>
  The quotient is a \<^verbatim>\<open>float\<close> (IEEE 754 binary32, 24 bits of precision): \<^verbatim>\<open>good\<close> and
  \<^verbatim>\<open>total\<close> are converted to \<^verbatim>\<open>float\<close>, the division is rounded to the nearest
  \<^verbatim>\<open>float\<close>, ties to the even mantissa. The literal \<^verbatim>\<open>0.9\<close> is a \<^verbatim>\<open>double\<close>
  (binary64, 53 bits): the \<^verbatim>\<open>double\<close> nearest to nine tenths. For the comparison the
  \<^verbatim>\<open>float\<close> is converted to \<^verbatim>\<open>double\<close>, which changes no value. So the test compares
  two rational numbers, and the model computes them exactly, in \<^typ>\<open>rat\<close>.

  \<open>floor_log2 x\<close> is the exponent \<open>e\<close> with \<open>2\<^sup>e \<le> x < 2\<^sup>e\<^sup>+\<^sup>1\<close> of a positive \<open>x\<close>
  (lemma \<open>floor_log2_bounds\<close>), found from the number of binary digits of an integer;
  \<open>binary_round p x\<close> is the multiple of \<open>2\<^sup>e\<^sup>-\<^sup>p\<^sup>+\<^sup>1\<close> nearest to \<open>x\<close>, ties to the even
  multiple: the nearest number with \<open>p\<close> significant bits (lemmas \<open>binary_round_near\<close>,
  \<open>binary_round_significand\<close>, \<open>round_half_even_tie\<close>). The counts of the classifier
  are between 0 and \<open>2\<^sup>3\<^sup>1\<close> and their quotients between \<open>2\<^sup>-\<^sup>3\<^sup>1\<close> and \<open>2\<^sup>3\<^sup>1\<close>, far from
  the exponent limits of either format, which the model therefore leaves out.
\<close>

fun bit_length :: "nat \<Rightarrow> nat" where
  "bit_length n = (if n = 0 then 0 else Suc (bit_length (n div 2)))"

declare bit_length.simps [simp del]

definition pow2 :: "int \<Rightarrow> rat" where
  "pow2 e = (if e \<ge> 0 then 2 ^ nat e else 1 / 2 ^ nat (- e))"

definition floor_log2 :: "rat \<Rightarrow> int" where
  "floor_log2 x =
     (if x \<ge> 1 then int (bit_length (nat \<lfloor>x\<rfloor>)) - 1
      else - int (bit_length (nat (\<lceil>1 / x\<rceil> - 1))))"

definition round_half_even :: "rat \<Rightarrow> int" where
  "round_half_even m =
     (let f = \<lfloor>m\<rfloor>; r = m - of_int f
      in if r < 1 / 2 then f else if r > 1 / 2 then f + 1 else if even f then f else f + 1)"

definition binary_round :: "nat \<Rightarrow> rat \<Rightarrow> rat" where
  "binary_round p x =
     (if x = 0 then 0
      else let e = floor_log2 \<bar>x\<bar>; ulp = pow2 (e - (int p - 1))
           in sgn x * of_int (round_half_even (\<bar>x\<bar> / ulp)) * ulp)"

definition to_float :: "rat \<Rightarrow> rat" where
  "to_float x = binary_round 24 x"

definition to_double :: "rat \<Rightarrow> rat" where
  "to_double x = binary_round 53 x"

subsection \<open>The cross-check\<close>

text \<open>
  \<^verbatim>\<open>using BAND_TIME_FREQ = tuple<HF_BAND, int, int>;
  unordered_map<string /* tcall */, unordered_map<string /* rcall */, vector<BAND_TIME_FREQ>>> worked;\<close>
  with \<^verbatim>\<open>worked_by_this_tcall[rcall] += ...\<close> and \<^verbatim>\<open>worked[tcall] = ...\<close>.
\<close>

type_synonym BAND_TIME_FREQ = "HF_BAND \<times> int \<times> int"
type_synonym rcall_map = "(string \<times> BAND_TIME_FREQ list) list"
type_synonym worked_map = "(string \<times> rcall_map) list"

fun append_btf :: "rcall_map \<Rightarrow> string \<Rightarrow> BAND_TIME_FREQ \<Rightarrow> rcall_map" where
  "append_btf [] key btf = [(key, [btf])]"
| "append_btf ((k, v) # m) key btf =
     (if k = key then (k, v @ [btf]) # m else (k, v) # append_btf m key btf)"

fun assign_worked :: "worked_map \<Rightarrow> string \<Rightarrow> rcall_map \<Rightarrow> worked_map" where
  "assign_worked [] key w = [(key, w)]"
| "assign_worked ((k, v) # m) key w =
     (if k = key then (k, w) # m else (k, v) # assign_worked m key w)"

text \<open>
  The first loop: for every entrant that is not a call without frequency information,
  the QSOs with entrants that are not such calls either, keyed by received call.
  \<^verbatim>\<open>band_from_qrg\<close> may throw.
\<close>

fun worked_by ::
  "qso_map \<Rightarrow> string set \<Rightarrow> small_qso list \<Rightarrow> rcall_map \<Rightarrow> failure + rcall_map" where
  "worked_by all_qsos calls_with_no_freq_info [] worked_by_this_tcall = Inr worked_by_this_tcall"
| "worked_by all_qsos calls_with_no_freq_info (qso # qsos) worked_by_this_tcall =
     (let rcall = qso_rcall qso
      in if rcall \<notin> calls_with_no_freq_info \<and> rcall \<in> fst ` set all_qsos
         then (case band_from_qrg (qso_qrg qso) of
                 Inl e \<Rightarrow> Inl e
               | Inr b \<Rightarrow>
                   worked_by all_qsos calls_with_no_freq_info qsos
                     (append_btf worked_by_this_tcall rcall (b, qso_rel_mins qso, qso_qrg qso)))
         else worked_by all_qsos calls_with_no_freq_info qsos worked_by_this_tcall)"

fun cross_index :: "qso_map \<Rightarrow> string set \<Rightarrow> qso_map \<Rightarrow> worked_map \<Rightarrow> failure + worked_map" where
  "cross_index all_qsos calls_with_no_freq_info [] worked = Inr worked"
| "cross_index all_qsos calls_with_no_freq_info ((tcall, qsos) # rest) worked =
     (if tcall \<notin> calls_with_no_freq_info
      then (case worked_by all_qsos calls_with_no_freq_info qsos [] of
              Inl e \<Rightarrow> Inl e
            | Inr worked_by_this_tcall \<Rightarrow>
                cross_index all_qsos calls_with_no_freq_info rest
                  (assign_worked worked tcall worked_by_this_tcall))
      else cross_index all_qsos calls_with_no_freq_info rest worked)"

text \<open>
  The innermost loop, over the QSOs \<^verbatim>\<open>vtf\<close> that the other station logged with
  \<^verbatim>\<open>tcall\<close>:
  \<^verbatim>\<open>if ( (tband == rband) and (abs(ttime - rtime) < RUN_TIME_RANGE) )
  { total++;
    if (abs(tfreq - rfreq) < FREQ_SKEW) good++; }\<close>
\<close>

fun count_reverse :: "BAND_TIME_FREQ \<Rightarrow> BAND_TIME_FREQ list \<Rightarrow> int \<times> int \<Rightarrow> int \<times> int" where
  "count_reverse btf [] total_good = total_good"
| "count_reverse (tband, ttime, tfreq) ((rband, rtime, rfreq) # vtf) (total_n, good) =
     count_reverse (tband, ttime, tfreq) vtf
       (if tband = rband \<and> \<bar>ttime - rtime\<bar> < RUN_TIME_RANGE
        then (total_n + 1, if \<bar>tfreq - rfreq\<bar> < FREQ_SKEW then good + 1 else good)
        else (total_n, good))"

text \<open>
  The loops over the QSOs of \<^verbatim>\<open>tcall\<close> with one \<^verbatim>\<open>rcall\<close>
  (\<^verbatim>\<open>worked.at(rcall)\<close>, then \<^verbatim>\<open>rcall_worked.find(tcall)\<close>), over the received
  calls of \<^verbatim>\<open>tcall\<close>, and over the entrants, which fills \<^verbatim>\<open>accumulated_counts\<close>.
\<close>

fun count_btf_vec ::
  "worked_map \<Rightarrow> string \<Rightarrow> string \<Rightarrow> BAND_TIME_FREQ list \<Rightarrow> int \<times> int \<Rightarrow> failure + int \<times> int" where
  "count_btf_vec worked tcall rcall [] total_good = Inr total_good"
| "count_btf_vec worked tcall rcall (btf # btf_vec) total_good =
     (case at_key worked rcall of
        Inl e \<Rightarrow> Inl e
      | Inr rcall_worked \<Rightarrow>
          count_btf_vec worked tcall rcall btf_vec
            (case map_of rcall_worked tcall of
               None \<Rightarrow> total_good
             | Some vtf \<Rightarrow> count_reverse btf vtf total_good))"

fun count_rcall_map ::
  "worked_map \<Rightarrow> string \<Rightarrow> rcall_map \<Rightarrow> int \<times> int \<Rightarrow> failure + int \<times> int" where
  "count_rcall_map worked tcall [] total_good = Inr total_good"
| "count_rcall_map worked tcall ((rcall, btf_vec) # rest) total_good =
     (case count_btf_vec worked tcall rcall btf_vec total_good of
        Inl e \<Rightarrow> Inl e
      | Inr tg \<Rightarrow> count_rcall_map worked tcall rest tg)"

fun accumulate_counts ::
  "worked_map \<Rightarrow> worked_map \<Rightarrow> (string \<times> int \<times> int) list \<Rightarrow> failure + (string \<times> int \<times> int) list" where
  "accumulate_counts worked [] accumulated_counts = Inr accumulated_counts"
| "accumulate_counts worked ((tcall, rcall_map) # rest) accumulated_counts =
     (case count_rcall_map worked tcall rcall_map (0, 0) of
        Inl e \<Rightarrow> Inl e
      | Inr total_good \<Rightarrow>
          accumulate_counts worked rest (accumulated_counts @ [(tcall, total_good)]))"

text \<open>
  The last loop: \<^verbatim>\<open>if (total != 0) { ... if (good_fraction < 0.9) rv += tcall; }\<close>,
  applied to the pairs \<^verbatim>\<open>{ total, good }\<close> that \<open>cross_check_counts\<close> has gathered in
  \<^verbatim>\<open>accumulated_counts\<close>.
\<close>

definition unreliable :: "int \<times> int \<Rightarrow> bool" where
  "unreliable total_good =
     (case total_good of
        (total_n, good) \<Rightarrow>
          total_n \<noteq> 0 \<and>
          (let good_fraction = to_float (to_float (of_int good) / to_float (of_int total_n))
           in good_fraction < to_double (9 / 10)))"

definition cross_check_counts :: "qso_map \<Rightarrow> string set \<Rightarrow> failure + (string \<times> int \<times> int) list" where
  "cross_check_counts all_qsos calls_with_no_freq_info =
     (case cross_index all_qsos calls_with_no_freq_info all_qsos [] of
        Inl e \<Rightarrow> Inl e
      | Inr worked \<Rightarrow> accumulate_counts worked worked [])"

definition calls_with_unreliable_freq :: "qso_map \<Rightarrow> string set \<Rightarrow> failure + string set" where
  "calls_with_unreliable_freq all_qsos calls_with_no_freq_info =
     (case cross_check_counts all_qsos calls_with_no_freq_info of
        Inl e \<Rightarrow> Inl e
      | Inr accumulated_counts \<Rightarrow>
          Inr (fst ` set (filter (\<lambda>(tcall, total_good). unreliable total_good)
                            accumulated_counts)))"

section \<open>The directory pipeline: \<^verbatim>\<open>process_directory\<close>\<close>

text \<open>
  \<^verbatim>\<open>using CALL_MAP = std::map<std::string, int, decltype(&compare_calls)>\<close>: an
  association list with one entry for each call, kept in the order of
  \<^verbatim>\<open>compare_calls\<close>, which is a parameter (the specification asks of it only that it
  is a total order of the callsigns, so that two keys are equivalent only when they are
  equal). \<^verbatim>\<open>cm[call]++\<close> and \<^verbatim>\<open>cm[pr.first] += pr.second\<close> are \<open>add_to_call\<close> with
  1 and with \<^verbatim>\<open>pr.second\<close>; \<^verbatim>\<open>cm += us\<close> for two maps is \<open>add_call_map\<close>. The counts
  are \<^verbatim>\<open>int\<close>s that count QSOs.
\<close>

type_synonym CALL_MAP = "(string \<times> int) list"

fun insert_call :: "(string \<Rightarrow> string \<Rightarrow> bool) \<Rightarrow> string \<times> int \<Rightarrow> CALL_MAP \<Rightarrow> CALL_MAP" where
  "insert_call cmp entry [] = [entry]"
| "insert_call cmp entry (x # cm) =
     (if cmp (fst entry) (fst x) then entry # x # cm else x # insert_call cmp entry cm)"

definition add_to_call :: "library_functions \<Rightarrow> CALL_MAP \<Rightarrow> string \<Rightarrow> int \<Rightarrow> CALL_MAP" where
  "add_to_call fns cm call n =
     (if call \<in> fst ` set cm
      then map (\<lambda>(k, v). if k = call then (k, v + n) else (k, v)) cm
      else insert_call (compare_calls fns) (call, n) cm)"

definition add_call_map :: "library_functions \<Rightarrow> CALL_MAP \<Rightarrow> CALL_MAP \<Rightarrow> CALL_MAP" where
  "add_call_map fns cm us = foldl (\<lambda>cm (call, n). add_to_call fns cm call n) cm us"

text \<open>
  \<^verbatim>\<open>static const set<int> default_band_freq { 1800, 3500, 7000, 14000, 21000, 28000 };\<close>
\<close>

definition default_band_freq :: "int set" where
  "default_band_freq = {1800, 3500, 7000, 14000, 21000, 28000}"

text \<open>
  The band pruners run as \<^verbatim>\<open>std::async\<close> tasks, one for each band that is present
  in both projections, and \<^verbatim>\<open>process_directory\<close> collects their results in the order
  of the bands; a task that has thrown rethrows from its \<^verbatim>\<open>get()\<close>. The tasks share
  nothing that any of them writes, so the model runs them one after the other.
\<close>

fun run_bands ::
  "globals \<Rightarrow> (HF_BAND \<Rightarrow> qso_map) \<Rightarrow> (HF_BAND \<Rightarrow> qso_map) \<Rightarrow> string set \<Rightarrow> string set \<Rightarrow> int \<Rightarrow>
   HF_BAND list \<Rightarrow> failure + string set list" where
  "run_bands g pruned_per_band_qsos all_per_band_qsos no_freq poor_freq max_rel_mins [] = Inr []"
| "run_bands g pruned_per_band_qsos all_per_band_qsos no_freq poor_freq max_rel_mins
       (this_band # bands) =
     (if pruned_per_band_qsos this_band \<noteq> [] \<and> all_per_band_qsos this_band \<noteq> []
      then (case process_band g (pruned_per_band_qsos this_band) (all_per_band_qsos this_band)
                   no_freq poor_freq max_rel_mins of
              Inl e \<Rightarrow> Inl e
            | Inr band_calls \<Rightarrow>
                (case run_bands g pruned_per_band_qsos all_per_band_qsos no_freq poor_freq
                        max_rel_mins bands of
                   Inl e \<Rightarrow> Inl e
                 | Inr out_calls \<Rightarrow> Inr (band_calls # out_calls)))
      else run_bands g pruned_per_band_qsos all_per_band_qsos no_freq poor_freq max_rel_mins bands)"

text \<open>
  The steps of \<^verbatim>\<open>process_directory\<close> after the ingestor, in the order of the source.

  \<^verbatim>\<open>for (auto& [tcall, qsos] : all_qsos) SORT(qsos);\<close>
\<close>

definition sort_logs :: "qso_map \<Rightarrow> qso_map" where
  "sort_logs all_qsos = map (\<lambda>(tcall, qsos). (tcall, SORT qsos)) all_qsos"

text \<open>
  \<^verbatim>\<open>for ( auto& [ tcall, qsos ] : pruned_qsos )
  { for (const auto& qso : qsos)
      if (scp_calls.contains(qso.rcall())) scp_cm += qso.rcall();
    erase_if(qsos, [scp_calls] (const small_qso& qso) { return scp_calls.contains(qso.rcall()); } ); }
  erase_if(pruned_qsos, [] (const auto& pr) { return pr.second.empty(); } );\<close>
  where \<^verbatim>\<open>pruned_qsos\<close> starts as a copy of \<^verbatim>\<open>all_qsos\<close>: the map \<^verbatim>\<open>scp_cm\<close> and
  the remaining \<^verbatim>\<open>pruned_qsos\<close>.
\<close>

definition count_entrant_rcalls :: "library_functions \<Rightarrow> string set \<Rightarrow> qso_map \<Rightarrow> CALL_MAP" where
  "count_entrant_rcalls fns scp_calls all_qsos =
     foldl (\<lambda>scp_cm qso. if qso_rcall qso \<in> scp_calls
                           then add_to_call fns scp_cm (qso_rcall qso) 1 else scp_cm)
       [] (all_of_map all_qsos)"

definition without_entrant_rcalls :: "string set \<Rightarrow> qso_map \<Rightarrow> qso_map" where
  "without_entrant_rcalls scp_calls all_qsos =
     filter (\<lambda>(tcall, qsos). qsos \<noteq> [])
       (map (\<lambda>(tcall, qsos). (tcall, filter (\<lambda>qso. qso_rcall qso \<notin> scp_calls) qsos)) all_qsos)"

text \<open>
  \<^verbatim>\<open>if (ALL_OF(qsos, [] (const small_qso& qso) { return default_band_freq.contains(qso.qrg()); }))
    calls_with_no_freq_info += tcall;\<close>
\<close>

definition no_freq_info_calls :: "qso_map \<Rightarrow> string set" where
  "no_freq_info_calls all_qsos =
     fst ` set (filter (\<lambda>(tcall, qsos). list_all (\<lambda>qso. qso_qrg qso \<in> default_band_freq) qsos)
                  all_qsos)"

text \<open>
  \<^verbatim>\<open>CALL_MAP rv(compare_calls); rv += scp_cm;
  for (auto& [ tcall, qsos ] : all_qsos)
    for (auto& qso : qsos)
      if (returned_calls.contains(qso.rcall())) rv += qso.rcall();\<close>
\<close>

definition fill_output_map :: "library_functions \<Rightarrow> CALL_MAP \<Rightarrow> qso_map \<Rightarrow> string set \<Rightarrow> CALL_MAP" where
  "fill_output_map fns scp_cm all_qsos returned_calls =
     foldl (\<lambda>rv qso. if qso_rcall qso \<in> returned_calls
                       then add_to_call fns rv (qso_rcall qso) 1 else rv)
       (add_call_map fns [] scp_cm) (all_of_map all_qsos)"

text \<open>
  \<^verbatim>\<open>process_directory\<close> as a whole: the ingestor; \<^verbatim>\<open>exit(-1)\<close> without a valid log;
  the steps above; the two sets of calls with no or poor frequency information; the band
  pruners, whose results are united in \<^verbatim>\<open>returned_calls\<close>; and the output map. The
  argument \<open>logfiles\<close> holds, for each file of the directory, the QSOs constructed from
  its \<^verbatim>\<open>QSO:\<close> lines. \<^verbatim>\<open>max_rel_mins\<close> is the \<^verbatim>\<open>int\<close> \<^verbatim>\<open>cp.hours() * 60 - 1\<close>.
\<close>

definition process_directory ::
  "library_functions \<Rightarrow> globals \<Rightarrow> contest_parameters \<Rightarrow> small_qso list list \<Rightarrow> failure + CALL_MAP" where
  "process_directory fns g cp logfiles =
     (let st = ingest g cp logfiles;
          max_rel_mins = int_of (cp_hours cp * 60 - 1)
      in if st_n_valid_logs st = 0 then Inl Exit_minus_1
         else
           let all_qsos = sort_logs (st_all_qsos st);
               scp_calls = st_scp_calls st;
               scp_cm = count_entrant_rcalls fns scp_calls all_qsos;
               pruned_qsos = without_entrant_rcalls scp_calls all_qsos;
               calls_with_no_freq_info = no_freq_info_calls all_qsos
           in (case calls_with_unreliable_freq all_qsos calls_with_no_freq_info of
                 Inl e \<Rightarrow> Inl e
               | Inr calls_with_poor_freq_info \<Rightarrow>
                   (case run_bands g (build_minilog pruned_qsos) (build_minilog all_qsos)
                           calls_with_no_freq_info calls_with_poor_freq_info max_rel_mins
                           [B160, B80, B40, B20, B15, B10] of
                      Inl e \<Rightarrow> Inl e
                    | Inr out_calls \<Rightarrow>
                        Inr (fill_output_map fns scp_cm all_qsos (\<Union> (set out_calls))))))"

section \<open>The scheduler: \<^verbatim>\<open>main\<close>\<close>

text \<open>
  The command line (command\_line.cpp), for the arguments \<open>argv\<close> with the name of the
  program first. \<^verbatim>\<open>n_parameters()\<close> is declared in command\_line.h, which is not among
  the sources; it is taken to be the number of arguments after the name of the program.
  \<^verbatim>\<open>value_present(s)\<close> looks at the parameters 1 to \<^verbatim>\<open>n_parameters() - 1\<close>,
  \<^verbatim>\<open>value(s)\<close> returns the parameter after the last of these that equals \<open>s\<close>, and
  \<^verbatim>\<open>parameter_present(s)\<close> looks at all of them. (\<open>cl_value\<close> is \<^verbatim>\<open>value\<close>.)
\<close>

definition value_present :: "string list \<Rightarrow> string \<Rightarrow> bool" where
  "value_present argv s = (s \<in> set (take (length argv - 2) (drop 1 argv)))"

definition cl_value :: "string list \<Rightarrow> string \<Rightarrow> string" where
  "cl_value argv s =
     (if \<not> value_present argv s then []
      else foldl (\<lambda>rv n. if argv ! n = s then argv ! (n + 1) else rv) [] [1..<length argv - 1])"

definition parameter_present :: "string list \<Rightarrow> string \<Rightarrow> bool" where
  "parameter_present argv s = (s \<in> set (drop 1 argv))"

text \<open>
  What \<^verbatim>\<open>main\<close> reads from the file system: \<^verbatim>\<open>file_exists\<close>,
  \<^verbatim>\<open>to_lines(read_file(filename))\<close>, \<^verbatim>\<open>directory_exists(..., LINKS::INCLUDE)\<close>, and
  for a directory of logs the QSOs of each of its files, as \<^verbatim>\<open>process_directory\<close>
  constructs them.
\<close>

record environment =
  file_exists :: "string \<Rightarrow> bool"
  file_lines :: "string \<Rightarrow> string list"
  directory_exists :: "string \<Rightarrow> bool"
  log_files :: "string \<Rightarrow> small_qso list list"

text \<open>
  A line of the final output is \<^verbatim>\<open>pr.first\<close> alone, or \<^verbatim>\<open>pr.first << " " << pr.second\<close>.
  The ways in which \<^verbatim>\<open>main\<close> can end: it returns a value after writing the output;
  \<^verbatim>\<open>exit(n)\<close> is called, in \<^verbatim>\<open>main\<close> or in a pipeline; an exception leaves
  \<^verbatim>\<open>main\<close> and the runtime calls \<^verbatim>\<open>std::terminate\<close>; the behaviour is undefined; or
  it waits forever. The process exit code is the low byte of the returned or exit value.
\<close>

datatype output_line = Call_line string | Call_count_line string int

datatype outcome =
    Return int "output_line list"
  | Exit int
  | Terminate
  | Undefined
  | Runs_forever

text \<open>
  The loop over the lines of the file named after \<^verbatim>\<open>@\<close>: a line that is not empty,
  does not start with \<^verbatim>\<open>#\<close> and contains a space is given to the constructor of
  \<^verbatim>\<open>contest_parameters\<close>. (A line without a space goes to \<^verbatim>\<open>dirnames\<close>, which
  \<^verbatim>\<open>main\<close> does not read again.)
\<close>

fun params_of_lines :: "library_functions \<Rightarrow> string list \<Rightarrow> failure + contest_parameters list" where
  "params_of_lines fns [] = Inr []"
| "params_of_lines fns (line # lines) =
     (if line \<noteq> [] \<and> \<not> (hd line = CHR ''#'') \<and> CHR '' '' \<in> set line
      then (case make_contest_parameters fns line of
              Inl e \<Rightarrow> Inl e
            | Inr cp \<Rightarrow>
                (case params_of_lines fns lines of
                   Inl e \<Rightarrow> Inl e
                 | Inr params_vec \<Rightarrow> Inr (cp # params_vec)))
      else params_of_lines fns lines)"

text \<open>The globals as the options set them, and their defaults.\<close>

definition globals_of :: "library_functions \<Rightarrow> string list \<Rightarrow> globals" where
  "globals_of fns argv =
     \<lparr> CUTOFF_LIMIT = (if value_present argv ''-l'' then from_string_int fns (cl_value argv ''-l'') else 1),
       MAX_PARALLEL = (if value_present argv ''-p'' then from_string_int fns (cl_value argv ''-p'') else 1),
       TL_LIMIT = (if value_present argv ''-tl'' then from_string_int fns (cl_value argv ''-tl'') else 1),
       PC_OUTPUT = (if value_present argv ''-xpc'' then from_string_int fns (cl_value argv ''-xpc'') else 100),
       verbose = parameter_present argv ''-v'' \<rparr>"

text \<open>
  The pipelines run as \<^verbatim>\<open>std::async\<close> tasks, at most \<^verbatim>\<open>MAX_PARALLEL\<close> at a time,
  and \<^verbatim>\<open>main\<close> adds each result to \<^verbatim>\<open>xscp_calls\<close> when it is ready. The tasks share
  no data, and adding the maps in another order gives the same counts; the model runs the
  pipelines in the order of \<^verbatim>\<open>params_vec\<close>.
\<close>

fun run_pipelines ::
  "library_functions \<Rightarrow> globals \<Rightarrow> environment \<Rightarrow> contest_parameters list \<Rightarrow> CALL_MAP \<Rightarrow> failure + CALL_MAP" where
  "run_pipelines fns g env [] xscp_calls = Inr xscp_calls"
| "run_pipelines fns g env (cp # params_vec) xscp_calls =
     (case process_directory fns g cp (log_files env (cp_directory cp)) of
        Inl e \<Rightarrow> Inl e
      | Inr cm \<Rightarrow> run_pipelines fns g env params_vec (add_call_map fns xscp_calls cm))"

text \<open>
  \<^verbatim>\<open>if (PC_OUTPUT != 100)
  { vector<int> values; ... FOR_ALL(xscp_calls, ... values += pr.second ...);
    erase_if(xscp_calls, [val_limit = value_line(values, PC_OUTPUT)] (const auto& pr)
      { return (pr.second < val_limit); }); }\<close>
\<close>

definition prune_for_output :: "library_functions \<Rightarrow> globals \<Rightarrow> CALL_MAP \<Rightarrow> CALL_MAP" where
  "prune_for_output fns g xscp_calls =
     (if PC_OUTPUT g \<noteq> 100
      then (let values = map snd xscp_calls;
                val_limit = value_line fns values (PC_OUTPUT g)
            in filter (\<lambda>pr. \<not> snd pr < val_limit) xscp_calls)
      else xscp_calls)"

text \<open>
  \<^verbatim>\<open>if (xscp) FOR_ALL(xscp_calls, ... cout << pr.first << " " << pr.second << endl ...);
  else FOR_ALL(xscp_calls, ... cout << pr.first << endl ...);\<close>
\<close>

definition output_lines :: "bool \<Rightarrow> CALL_MAP \<Rightarrow> output_line list" where
  "output_lines xscp xscp_calls =
     (if xscp then map (\<lambda>pr. Call_count_line (fst pr) (snd pr)) xscp_calls
      else map (\<lambda>pr. Call_line (fst pr)) xscp_calls)"

text \<open>
  An \<^verbatim>\<open>exit(-1)\<close> in a pipeline ends the process; an exception that a pipeline has
  thrown leaves \<^verbatim>\<open>main\<close> through \<^verbatim>\<open>it->get()\<close>, and nothing catches it.
\<close>

definition outcome_of_failure :: "failure \<Rightarrow> outcome" where
  "outcome_of_failure e =
     (case e of
        Exit_minus_1 \<Rightarrow> Exit (- 1)
      | Std_exception \<Rightarrow> Terminate
      | Out_of_range \<Rightarrow> Terminate
      | Length_error \<Rightarrow> Terminate
      | Undefined_behaviour \<Rightarrow> Undefined)"

text \<open>
  \<^verbatim>\<open>main\<close> from the test of the directories on. The loop
  \<^verbatim>\<open>while (processing_directories == MAX_PARALLEL)\<close> waits for a running pipeline to
  finish before the next one starts; with \<^verbatim>\<open>MAX_PARALLEL\<close> equal to 0 it is entered
  before the first pipeline has started, when none is running and the number of running
  pipelines stays 0, so it never ends. The last statement of \<^verbatim>\<open>main\<close> is
  \<^verbatim>\<open>return 1;\<close>. Only the lines of the final output are kept (the messages written
  under \<^verbatim>\<open>-v\<close> are left out).
\<close>

definition schedule :: "library_functions \<Rightarrow> environment \<Rightarrow> string list \<Rightarrow> contest_parameters list \<Rightarrow> outcome" where
  "schedule fns env argv params_vec =
     (if \<exists>cp \<in> set params_vec. \<not> directory_exists env (cp_directory cp) then Exit (- 1)
      else
        let g = globals_of fns argv;
            xscp = parameter_present argv ''-x''
        in if params_vec \<noteq> [] \<and> MAX_PARALLEL g = 0 then Runs_forever
           else (case run_pipelines fns g env params_vec [] of
                   Inl e \<Rightarrow> outcome_of_failure e
                 | Inr xscp_calls \<Rightarrow>
                     Return 1 (output_lines xscp (prune_for_output fns g xscp_calls))))"

text \<open>\<^verbatim>\<open>int main(int argc, char** argv)\<close>, up to the test of the directories.\<close>

definition main :: "library_functions \<Rightarrow> environment \<Rightarrow> string list \<Rightarrow> outcome" where
  "main fns env argv =
     (if \<not> value_present argv ''-dir'' then Exit (- 1)
      else
        let rawdirname = cl_value argv ''-dir''
        in if rawdirname \<noteq> [] \<and> hd rawdirname = CHR ''@''
           then (let filename = drop 1 rawdirname
                 in if \<not> file_exists env filename then Exit (- 1)
                    else (case params_of_lines fns (file_lines env filename) of
                            Inl e \<Rightarrow> outcome_of_failure e
                          | Inr params_vec \<Rightarrow> schedule fns env argv params_vec))
           else if \<not> value_present argv ''-start'' then Exit (- 1)
           else if \<not> value_present argv ''-hrs'' then Exit (- 1)
           else (case make_contest_parameters fns
                        (rawdirname @ '' '' @ cl_value argv ''-start'' @ '' '' @ cl_value argv ''-hrs'') of
                   Inl e \<Rightarrow> outcome_of_failure e
                 | Inr cp \<Rightarrow> schedule fns env argv [cp]))"

text \<open>The exit code that the parent process sees, when there is one.\<close>

definition exit_code :: "outcome \<Rightarrow> int option" where
  "exit_code out =
     (case out of
        Return n lines \<Rightarrow> Some (n mod 256)
      | Exit n \<Rightarrow> Some (n mod 256)
      | Terminate \<Rightarrow> None
      | Undefined \<Rightarrow> None
      | Runs_forever \<Rightarrow> None)"

text \<open>The call that a line of the output shows, and the calls of all the lines.\<close>

definition line_call :: "output_line \<Rightarrow> string" where
  "line_call l = (case l of Call_line call \<Rightarrow> call | Call_count_line call n \<Rightarrow> call)"

definition emitted_calls :: "output_line list \<Rightarrow> string set" where
  "emitted_calls ls = line_call ` set ls"

section \<open>Example data\<close>

text \<open>
  A 48-hour contest that starts on 2022-10-29 at 00:00:00 UTC (1667001600 seconds after
  the epoch) and a few QSOs, used below to run the model on concrete inputs.
\<close>

definition example_globals :: globals where
  "example_globals =
     \<lparr> CUTOFF_LIMIT = 1, MAX_PARALLEL = 1, TL_LIMIT = 1, PC_OUTPUT = 100, verbose = False \<rparr>"

definition example_contest :: contest_parameters where
  "example_contest = contest_parameters_of ''logs'' 1667001600 48"

definition qso_at_start :: small_qso where
  "qso_at_start =
     \<lparr> qso_tcall = ''N7DR'', qso_rcall = ''W1AW/QRP'', qso_band = B20, qso_qrg = 14050,
       qso_time = 1667001600, qso_rel_mins = 0, qso_id = 0 \<rparr>"

definition qso_at_end :: small_qso where
  "qso_at_end =
     \<lparr> qso_tcall = ''N7DR'', qso_rcall = ''K1ABC'', qso_band = B20, qso_qrg = 14050,
       qso_time = 1667174400, qso_rel_mins = 0, qso_id = 1 \<rparr>"

definition qso_last_second :: small_qso where
  "qso_last_second =
     \<lparr> qso_tcall = ''N7DR'', qso_rcall = ''G4AMJ'', qso_band = B20, qso_qrg = 14050,
       qso_time = 1667174399, qso_rel_mins = 0, qso_id = 2 \<rparr>"

text \<open>
  One band of one log: \<^verbatim>\<open>KX9XYZ\<close> is logged twice and \<^verbatim>\<open>W1AW\<close> once, on
  frequencies 10 kHz apart, in the first three minutes of the contest.
\<close>

definition example_band :: qso_map where
  "example_band =
     [(''N7DR'',
       [\<lparr> qso_tcall = ''N7DR'', qso_rcall = ''KX9XYZ'', qso_band = B20, qso_qrg = 14050,
          qso_time = 1667001600, qso_rel_mins = 0, qso_id = 0 \<rparr>,
        \<lparr> qso_tcall = ''N7DR'', qso_rcall = ''KX9XYZ'', qso_band = B20, qso_qrg = 14060,
          qso_time = 1667001660, qso_rel_mins = 1, qso_id = 1 \<rparr>,
        \<lparr> qso_tcall = ''N7DR'', qso_rcall = ''W1AW'', qso_band = B20, qso_qrg = 14070,
          qso_time = 1667001720, qso_rel_mins = 2, qso_id = 2 \<rparr>])]"

text \<open>
  A one-hour contest with four logs. \<^verbatim>\<open>A5A\<close>, \<^verbatim>\<open>W1B\<close> and \<^verbatim>\<open>K2C\<close> work one
  another; \<^verbatim>\<open>K2C\<close> logs \<^verbatim>\<open>A5B\<close>, a bust of \<^verbatim>\<open>A5A\<close>; \<^verbatim>\<open>G4XYZ\<close> is in two logs
  and \<^verbatim>\<open>G4XYY\<close> in one; nobody has logged \<^verbatim>\<open>N7DR\<close>.
\<close>

definition example_hour :: contest_parameters where
  "example_hour = contest_parameters_of ''logs'' 1667001600 1"

definition example_qso :: "string \<Rightarrow> string \<Rightarrow> int \<Rightarrow> int \<Rightarrow> int \<Rightarrow> small_qso" where
  "example_qso t r f seconds n =
     \<lparr> qso_tcall = t, qso_rcall = r, qso_band = B20, qso_qrg = f,
       qso_time = 1667001600 + seconds, qso_rel_mins = 0, qso_id = n \<rparr>"

definition example_logs :: "small_qso list list" where
  "example_logs =
     [[example_qso ''A5A'' ''W1B'' 14050 600 0, example_qso ''A5A'' ''K2C'' 14050 630 1,
       example_qso ''A5A'' ''G4XYZ'' 14050 700 2],
      [example_qso ''W1B'' ''A5A'' 14050 600 3, example_qso ''W1B'' ''G4XYZ'' 14051 720 4,
       example_qso ''W1B'' ''G4XYY'' 14200 900 5],
      [example_qso ''K2C'' ''A5B'' 14050 630 6],
      [example_qso ''N7DR'' ''W1B'' 14100 1200 7]]"

text \<open>
  Functions for the parameters of the model, to run it: fields separated by single spaces,
  a start time that is always that of the contest above, decimal numbers, the order of
  \<^typ>\<open>string\<close> for the calls, and for \<open>value_line\<close> what the specification says of the
  truncation: the smallest count such that the calls with at least that count hold at
  least the given percentage of the sum of all counts.
\<close>

fun split_on_space :: "string \<Rightarrow> string \<Rightarrow> string list" where
  "split_on_space field [] = [field]"
| "split_on_space field (c # cs) =
     (if c = CHR '' '' then field # split_on_space [] cs else split_on_space (field @ [c]) cs)"

definition decimal :: "string \<Rightarrow> int" where
  "decimal s = foldl (\<lambda>n c. 10 * n + (int (of_char c) - 48)) 0 s"

fun threshold_loop :: "int list \<Rightarrow> int \<Rightarrow> int \<Rightarrow> int" where
  "threshold_loop [] target acc = 0"
| "threshold_loop (v # vs) target acc =
     (if acc + v \<ge> target then v else threshold_loop vs target (acc + v))"

definition example_functions :: library_functions where
  "example_functions =
     \<lparr> split_fields = split_on_space [],
       start_seconds = (\<lambda>s. 1667001600),
       from_string_int = decimal,
       compare_calls = (\<lambda>a b. a < b),
       value_line = (\<lambda>values pc. threshold_loop (rev (sort values))
                                      ((sum_list values * pc + 99) div 100) 0) \<rparr>"

definition example_environment :: environment where
  "example_environment =
     \<lparr> file_exists = (\<lambda>name. False),
       file_lines = (\<lambda>name. []),
       directory_exists = (\<lambda>name. name = ''logs''),
       log_files = (\<lambda>name. if name = ''logs'' then example_logs else []) \<rparr>"

text \<open>
  Two entrants that have worked each other ten times on 20 m, every ten minutes. Both
  logs agree on the time of every QSO and on the frequency of nine of them; for the last
  QSO the logged frequencies are 10 kHz apart. So each of the two has ten reciprocal
  pairings, nine of them good.
\<close>

definition example_cross_check :: qso_map where
  "example_cross_check =
     [(''W1AAA'', map (\<lambda>i. \<lparr> qso_tcall = ''W1AAA'', qso_rcall = ''K2BBB'', qso_band = B20,
                              qso_qrg = 14050, qso_time = 1667001600 + 600 * int i,
                              qso_rel_mins = 10 * int i, qso_id = int i \<rparr>) [0..<10]),
      (''K2BBB'', map (\<lambda>i. \<lparr> qso_tcall = ''K2BBB'', qso_rcall = ''W1AAA'', qso_band = B20,
                              qso_qrg = (if i = 9 then 14060 else 14050),
                              qso_time = 1667001600 + 600 * int i,
                              qso_rel_mins = 10 * int i, qso_id = 10 + int i \<rparr>) [0..<10])]"

text \<open>The command line \<^verbatim>\<open>drscp -dir logs -start 2022-10-29 -hrs 1\<close>.\<close>

definition example_argv :: "string list" where
  "example_argv = [''drscp'', ''-dir'', ''logs'', ''-start'', ''2022-10-29'', ''-hrs'', ''1'']"

definition example_top_half :: globals where
  "example_top_half = example_globals\<lparr> PC_OUTPUT := 50 \<rparr>"

chapter \<open>Properties\<close>

section \<open>Band lookup\<close>

text \<open>
  Claim C6. \<^verbatim>\<open>band_from_qrg\<close> maps every frequency inside one of the six inclusive
  contest-band ranges (160m: 1800--2000, 80m: 3500--4000, 40m: 7000--7300,
  20m: 14000--14350, 15m: 21000--21450, 10m: 28000--29700 kHz) to that band, so that a
  frequency exactly at a band edge such as 7300 lands on the expected band, and it raises
  an exception for every frequency outside all six ranges.
\<close>

theorem band_from_qrg_ranges:
  "(1800 \<le> qrg \<and> qrg \<le> 2000 \<longrightarrow> band_from_qrg qrg = Inr B160) \<and>
   (3500 \<le> qrg \<and> qrg \<le> 4000 \<longrightarrow> band_from_qrg qrg = Inr B80) \<and>
   (7000 \<le> qrg \<and> qrg \<le> 7300 \<longrightarrow> band_from_qrg qrg = Inr B40) \<and>
   (14000 \<le> qrg \<and> qrg \<le> 14350 \<longrightarrow> band_from_qrg qrg = Inr B20) \<and>
   (21000 \<le> qrg \<and> qrg \<le> 21450 \<longrightarrow> band_from_qrg qrg = Inr B15) \<and>
   (28000 \<le> qrg \<and> qrg \<le> 29700 \<longrightarrow> band_from_qrg qrg = Inr B10) \<and>
   (\<not> (1800 \<le> qrg \<and> qrg \<le> 2000) \<and> \<not> (3500 \<le> qrg \<and> qrg \<le> 4000) \<and>
    \<not> (7000 \<le> qrg \<and> qrg \<le> 7300) \<and> \<not> (14000 \<le> qrg \<and> qrg \<le> 14350) \<and>
    \<not> (21000 \<le> qrg \<and> qrg \<le> 21450) \<and> \<not> (28000 \<le> qrg \<and> qrg \<le> 29700)
      \<longrightarrow> band_from_qrg qrg = Inl Std_exception)"
  by (simp add: band_from_qrg_def)

theorem band_from_qrg_ranges_witness:
  "band_from_qrg 1800 = Inr B160 \<and> band_from_qrg 4000 = Inr B80 \<and>
   band_from_qrg 7300 = Inr B40 \<and> band_from_qrg 14000 = Inr B20 \<and>
   band_from_qrg 21450 = Inr B15 \<and> band_from_qrg 29700 = Inr B10 \<and>
   band_from_qrg 7301 = Inl Std_exception \<and> band_from_qrg (- 5) = Inl Std_exception"
  using band_from_qrg_ranges [of 1800] band_from_qrg_ranges [of 4000]
    band_from_qrg_ranges [of 7300] band_from_qrg_ranges [of 14000]
    band_from_qrg_ranges [of 21450] band_from_qrg_ranges [of 29700]
    band_from_qrg_ranges [of 7301] band_from_qrg_ranges [of "- 5"]
  by simp

section \<open>The call analyser\<close>

subsection \<open>What the loops compute\<close>

lemma contains_iff: "contains s ss \<longleftrightarrow> (\<exists>p q. s = p @ ss @ q)"
proof (induction s)
  case Nil
  then show ?case by auto
next
  case (Cons c s)
  show ?case
  proof
    assume "contains (c # s) ss"
    then consider "take (length ss) (c # s) = ss" | "contains s ss" by auto
    then show "\<exists>p q. c # s = p @ ss @ q"
    proof cases
      case 1
      then have "c # s = [] @ ss @ drop (length ss) (c # s)"
        by (metis append_Nil append_take_drop_id)
      then show ?thesis by blast
    next
      case 2
      then obtain p q where "s = p @ ss @ q" using Cons.IH by blast
      then have "c # s = (c # p) @ ss @ q" by simp
      then show ?thesis by blast
    qed
  next
    assume "\<exists>p q. c # s = p @ ss @ q"
    then obtain p q where pq: "c # s = p @ ss @ q" by blast
    show "contains (c # s) ss"
    proof (cases p)
      case Nil
      with pq have "take (length ss) (c # s) = ss" by simp
      then show ?thesis by simp
    next
      case (Cons a p')
      with pq have "s = p' @ ss @ q" by simp
      then have "contains s ss" using Cons.IH by blast
      then show ?thesis by simp
    qed
  qed
qed

lemma deleted_char_loop_iff:
  "deleted_char_loop longer shorter posn \<longleftrightarrow>
     (\<exists>p. posn \<le> p \<and> p < length longer - 1 \<and> take p longer @ drop (p + 1) longer = shorter)"
proof (induction longer shorter posn rule: deleted_char_loop.induct)
  case (1 longer shorter posn)
  show ?case
  proof (cases "posn < length longer - 1")
    case False
    then show ?thesis by (subst deleted_char_loop.simps) auto
  next
    case True
    show ?thesis
    proof (cases "take posn longer @ drop (posn + 1) longer = shorter")
      case hit: True
      then show ?thesis using True by (subst deleted_char_loop.simps) auto
    next
      case miss: False
      have "deleted_char_loop longer shorter posn = deleted_char_loop longer shorter (posn + 1)"
        using True miss by (subst deleted_char_loop.simps) simp
      also have "\<dots> \<longleftrightarrow> (\<exists>p. posn + 1 \<le> p \<and> p < length longer - 1 \<and>
                     take p longer @ drop (p + 1) longer = shorter)"
        using "1.IH" True miss by simp
      also have "\<dots> \<longleftrightarrow> (\<exists>p. posn \<le> p \<and> p < length longer - 1 \<and>
                     take p longer @ drop (p + 1) longer = shorter)"
        using miss by (metis Suc_eq_plus1 Suc_leD Suc_leI le_neq_implies_less)
      finally show ?thesis .
    qed
  qed
qed

lemma inversion_loop_iff:
  "inversion_loop call copied posn \<longleftrightarrow>
     (\<exists>p. posn \<le> p \<and> p < length call - 1 \<and>
          call[p := call ! (p + 1), p + 1 := call ! p] = copied)"
proof (induction call copied posn rule: inversion_loop.induct)
  case (1 call copied posn)
  show ?case
  proof (cases "posn < length call - 1")
    case False
    then show ?thesis by (subst inversion_loop.simps) auto
  next
    case True
    show ?thesis
    proof (cases "call[posn := call ! (posn + 1), posn + 1 := call ! posn] = copied")
      case hit: True
      then show ?thesis using True by (subst inversion_loop.simps) auto
    next
      case miss: False
      have "inversion_loop call copied posn = inversion_loop call copied (posn + 1)"
        using True miss by (subst inversion_loop.simps) simp
      also have "\<dots> \<longleftrightarrow> (\<exists>p. posn + 1 \<le> p \<and> p < length call - 1 \<and>
                     call[p := call ! (p + 1), p + 1 := call ! p] = copied)"
        using "1.IH" True miss by simp
      also have "\<dots> \<longleftrightarrow> (\<exists>p. posn \<le> p \<and> p < length call - 1 \<and>
                     call[p := call ! (p + 1), p + 1 := call ! p] = copied)"
        using miss by (metis Suc_eq_plus1 Suc_leD Suc_leI le_neq_implies_less)
      finally show ?thesis .
    qed
  qed
qed

lemma differences_loop_eq:
  "differences_loop call copied posn differences =
     differences + int (card {i. posn \<le> i \<and> i < length call \<and> call ! i \<noteq> copied ! i})"
proof (induction call copied posn differences rule: differences_loop.induct)
  case (1 call copied posn differences)
  show ?case
  proof (cases "posn < length call")
    case False
    then have "{i. posn \<le> i \<and> i < length call \<and> call ! i \<noteq> copied ! i} = {}" by auto
    then show ?thesis using False by (subst differences_loop.simps) simp
  next
    case True
    let ?S = "\<lambda>k. {i. k \<le> i \<and> i < length call \<and> call ! i \<noteq> copied ! i}"
    have fin: "finite (?S (posn + 1))" by simp
    have notin: "posn \<notin> ?S (posn + 1)" by simp
    have split: "?S posn = (if call ! posn \<noteq> copied ! posn then insert posn (?S (posn + 1)) else ?S (posn + 1))"
      using True by (auto simp: Suc_le_eq le_less)
    have "differences_loop call copied posn differences =
          differences_loop call copied (posn + 1)
            (if call ! posn \<noteq> copied ! posn then differences + 1 else differences)"
      using True by (subst differences_loop.simps) simp
    also have "\<dots> = (if call ! posn \<noteq> copied ! posn then differences + 1 else differences)
                    + int (card (?S (posn + 1)))"
      using "1.IH" True by simp
    also have "\<dots> = differences + int (card (?S posn))"
      using fin notin by (subst split) (simp del: One_nat_def)
    finally show ?thesis .
  qed
qed



text \<open>
  The unsigned bounds \<^verbatim>\<open>longer.length() - 1\<close> and \<^verbatim>\<open>call.length() - 1\<close> are taken
  of a length that is at least one on the paths that reach them.
\<close>

lemma is_bust_loop_bounds:
  "\<bar>int (length call) - int (length copied)\<bar> = 1 \<Longrightarrow>
     1 \<le> length (if length call > length copied then call else copied)"
  "call \<noteq> copied \<Longrightarrow> length call = length copied \<Longrightarrow> 1 \<le> length call"
  by (auto simp: Suc_le_eq)

lemma is_bust_unfold:
  "is_bust call copied \<longleftrightarrow>
     call \<noteq> copied \<and>
     (if \<bar>int (length call) - int (length copied)\<bar> \<ge> 2 then False
      else if \<bar>int (length call) - int (length copied)\<bar> = 1
      then (let longer = (if length call > length copied then call else copied);
                shorter = (if length call > length copied then copied else call)
            in (\<exists>p q. longer = p @ shorter @ q) \<or>
               (\<exists>p. 1 \<le> p \<and> p < length longer - 1 \<and>
                    take p longer @ drop (p + 1) longer = shorter))
      else card {i. i < length call \<and> call ! i \<noteq> copied ! i} = 1 \<or>
           (\<exists>p. p < length call - 1 \<and>
                call[p := call ! (p + 1), p + 1 := call ! p] = copied))"
  by (simp add: is_bust_def Let_def contains_iff deleted_char_loop_iff inversion_loop_iff
        differences_loop_eq)

lemma swap_adjacent_sym:
  assumes "length a = length b" and "Suc p < length a"
    and "a[p := a ! Suc p, Suc p := a ! p] = b"
  shows "b[p := b ! Suc p, Suc p := b ! p] = a"
proof (rule nth_equalityI)
  show "length (b[p := b ! Suc p, Suc p := b ! p]) = length a"
    using assms(1) by simp
next
  fix i assume "i < length (b[p := b ! Suc p, Suc p := b ! p])"
  then have i: "i < length a" using assms(1) by simp
  have bp: "b ! p = a ! Suc p" and bsp: "b ! Suc p = a ! p"
    using assms(2) by (simp_all add: assms(3)[symmetric])
  have other: "i \<noteq> p \<Longrightarrow> i \<noteq> Suc p \<Longrightarrow> b ! i = a ! i"
    using i by (simp add: assms(3)[symmetric])
  show "b[p := b ! Suc p, Suc p := b ! p] ! i = a ! i"
    using i assms(1,2) bp bsp other by (auto simp: nth_list_update)
qed

lemma is_bust_sym_aux: "is_bust a b \<Longrightarrow> is_bust b a"
proof -
  assume ab: "is_bust a b"
  have ne: "a \<noteq> b" using ab by (simp add: is_bust_unfold)
  have d2: "\<not> \<bar>int (length a) - int (length b)\<bar> \<ge> 2"
    using ab by (auto simp: is_bust_unfold split: if_splits)
  show "is_bust b a"
  proof (cases "\<bar>int (length a) - int (length b)\<bar> = 1")
    case True
    then have T': "\<bar>int (length b) - int (length a)\<bar> = 1" by linarith
    have le: "length a > length b \<longleftrightarrow> \<not> length b > length a" using True by linarith
    show ?thesis
      using ab True T' ne le unfolding is_bust_unfold[of a b] is_bust_unfold[of b a] Let_def
      by (simp split: if_splits)
  next
    case False
    with d2 have len: "length a = length b" by linarith
    have cardeq: "{i. i < length b \<and> b ! i \<noteq> a ! i} = {i. i < length a \<and> a ! i \<noteq> b ! i}"
      using len by auto
    from ab len consider
        (one) "card {i. i < length a \<and> a ! i \<noteq> b ! i} = 1"
      | (swap) p where "p < length a - 1" "a[p := a ! (p + 1), p + 1 := a ! p] = b"
      by (auto simp: is_bust_unfold)
    then show ?thesis
    proof cases
      case one
      then show ?thesis using ne len cardeq by (simp add: is_bust_unfold)
    next
      case swap
      then have "b[p := b ! Suc p, Suc p := b ! p] = a"
        using swap_adjacent_sym[of a b p] len by simp
      moreover have "p < length b - 1" using swap(1) len by simp
      ultimately show ?thesis using ne len by (auto simp: is_bust_unfold)
    qed
  qed
qed


text \<open>
  Claim C1. For every pair of distinct callsigns (target, candidate),
  \<^verbatim>\<open>is_bust(target, candidate)\<close> is true exactly when the three-rule reference
  definition holds: false when the lengths differ by 2 or more; when they differ by 1,
  true iff the longer contains the shorter as a substring or deleting exactly one
  interior character (position 1 to \<open>len(long) - 2\<close>) of the longer yields the shorter;
  when they are equal, true iff exactly one character position differs or swapping two
  adjacent characters of the target yields the candidate. And \<^verbatim>\<open>is_bust(a, a)\<close> is
  false for every \<open>a\<close>. (The equality needs the two callsigns to be distinct, not to be
  non-empty: it holds for the empty string too.)
\<close>

theorem is_bust_refines_reference:
  "(target \<noteq> candidate \<longrightarrow> is_bust target candidate = bust_reference target candidate) \<and>
   \<not> is_bust a a"
proof
  show "target \<noteq> candidate \<longrightarrow> is_bust target candidate = bust_reference target candidate"
  proof
    assume ne: "target \<noteq> candidate"
    have pos: "\<And>p (n::nat). (int p \<le> int n - 2) = (p < n - Suc 0)"
      by auto
    have sw: "\<And>p (n::nat). (Suc p < n) = (p < n - Suc 0)" by auto
    show "is_bust target candidate = bust_reference target candidate"
      using ne unfolding is_bust_unfold bust_reference_def delete_char_def swap_adjacent_def
      by (simp add: Let_def pos sw)
  qed
next
  show "\<not> is_bust a a" by (simp add: is_bust_def)
qed

theorem is_bust_refines_reference_witness:
  "''W1AW'' \<noteq> ''W1AWW'' \<and> is_bust ''W1AW'' ''W1AWW'' \<and> bust_reference ''W1AW'' ''W1AWW'' \<and>
   ''N7DR'' \<noteq> ''DR7N'' \<and> \<not> is_bust ''N7DR'' ''DR7N'' \<and> \<not> bust_reference ''N7DR'' ''DR7N'' \<and>
   ''N7DR'' \<noteq> ''N7RD'' \<and> is_bust ''N7DR'' ''N7RD'' \<and> bust_reference ''N7DR'' ''N7RD'' \<and>
   ''K1ABC'' \<noteq> ''K1ABCDE'' \<and> \<not> is_bust ''K1ABC'' ''K1ABCDE'' \<and> \<not> bust_reference ''K1ABC'' ''K1ABCDE''"
  using is_bust_refines_reference [of "''W1AW''" "''W1AWW''"]
    is_bust_refines_reference [of "''N7DR''" "''DR7N''"]
    is_bust_refines_reference [of "''N7DR''" "''N7RD''"]
    is_bust_refines_reference [of "''K1ABC''" "''K1ABCDE''"]
  by (simp add: is_bust_def deleted_char_loop.simps differences_loop.simps inversion_loop.simps)


text \<open>
  Claim C2. For every pair \<open>(a, b)\<close> of distinct callsigns,
  \<^verbatim>\<open>is_bust(a, b) = is_bust(b, a)\<close>: the bust relation is symmetric. (For \<open>a = b\<close> both
  sides are false, so the equation holds for every pair.)
\<close>

theorem is_bust_symmetric: "is_bust a b = is_bust b a"
  using is_bust_sym_aux by blast

section \<open>The order of QSOs\<close>

lemma set_sort_insert: "set (sort_insert x ys) = insert x (set ys)"
  by (induction ys) auto

lemma mset_sort_insert: "mset (sort_insert x ys) = add_mset x (mset ys)"
  by (induction ys) auto

lemma mset_SORT: "mset (SORT v) = mset v"
  unfolding SORT_def by (induction v) (auto simp: mset_sort_insert)

lemma sorted_sort_insert:
  "sorted_wrt (\<lambda>a b. qso_time a \<le> qso_time b) ys \<Longrightarrow>
   sorted_wrt (\<lambda>a b. qso_time a \<le> qso_time b) (sort_insert x ys)"
  by (induction ys) (auto simp: set_sort_insert small_qso_less_def)

lemma sorted_SORT: "sorted_wrt (\<lambda>a b. qso_time a \<le> qso_time b) (SORT v)"
  unfolding SORT_def by (induction v) (auto simp: sorted_sort_insert)


text \<open>
  Claim C8, as the code has it. \<^verbatim>\<open>small_qso::operator<\<close> compares the times only: for
  any two QSOs \<open>a\<close> and \<open>b\<close>, \<open>a\<close> sorts before \<open>b\<close> iff \<open>a.time < b.time\<close>; the
  identifier takes no part, and two QSOs of the same second are equivalent for the sort.
  Consequently every chronological vector that \<^verbatim>\<open>build_vec\<close> builds is a permutation
  of the QSOs of the map in which the times never decrease; the order of QSOs with the
  same time is whatever \<^verbatim>\<open>std::sort\<close> leaves.
\<close>

theorem small_qso_order_is_time_only:
  "(small_qso_less a b \<longleftrightarrow> qso_time a < qso_time b) \<and>
   sorted_wrt (\<lambda>a b. qso_time a \<le> qso_time b) (build_vec qsos_per_call) \<and>
   mset (build_vec qsos_per_call) = mset (all_of_map qsos_per_call)"
  by (simp add: small_qso_less_def build_vec_def sorted_SORT mset_SORT)


text \<open>
  The claim as it was stated orders QSOs by time and then by identifier. Two QSOs of the
  same second with identifiers 0 and 1: by (time, id) the first sorts before the second,
  by \<^verbatim>\<open>operator<\<close> it does not.
\<close>

theorem small_qso_order_counterexample:
  "\<not> (small_qso_less
         \<lparr> qso_tcall = ''N7DR'', qso_rcall = ''W1AW'', qso_band = B20, qso_qrg = 14050,
           qso_time = 1667001600, qso_rel_mins = 0, qso_id = 0 \<rparr>
         \<lparr> qso_tcall = ''N7DR'', qso_rcall = ''K1ABC'', qso_band = B20, qso_qrg = 14050,
           qso_time = 1667001600, qso_rel_mins = 0, qso_id = 1 \<rparr>
       \<longleftrightarrow>
       ((1667001600::int) < 1667001600 \<or> ((1667001600::int) = 1667001600 \<and> (0::int) < 1)))"
  by (simp add: small_qso_less_def)


section \<open>The contest window\<close>

lemma int_of_id: "- 2147483648 \<le> x \<Longrightarrow> x < 2147483648 \<Longrightarrow> int_of x = x"
  unfolding int_of_def by (simp add: sint_sbintrunc' signed_take_bit_int_eq_self)


lemma set_all_of_map_append_qso:
  "set (all_of_map (append_qso m k q)) = insert q (set (all_of_map m))"
  by (induction m k q rule: append_qso.induct) (auto simp: all_of_map_def)

lemma set_all_of_map_insert_entry:
  "set (all_of_map (insert_entry m e)) \<subseteq> set (all_of_map m) \<union> set (snd e)"
  by (auto simp: insert_entry_def all_of_map_def)

lemma ingest_qso_window:
  assumes "\<forall>q \<in> set (all_of_map m). in_contest_period cp (qso_time q)"
  shows "\<forall>q \<in> set (all_of_map (ingest_qso cp m qso)). in_contest_period cp (qso_time q)"
  using assms by (auto simp: ingest_qso_def Let_def set_all_of_map_append_qso)

lemma foldl_ingest_qso_window:
  "\<forall>q \<in> set (all_of_map m). in_contest_period cp (qso_time q) \<Longrightarrow>
   \<forall>q \<in> set (all_of_map (foldl (ingest_qso cp) m logfile)). in_contest_period cp (qso_time q)"
proof (induction logfile arbitrary: m)
  case Nil
  then show ?case by simp
next
  case (Cons qso logfile)
  have "\<forall>q \<in> set (all_of_map (ingest_qso cp m qso)). in_contest_period cp (qso_time q)"
    using Cons.prems by (rule ingest_qso_window)
  then show ?case using Cons.IH by simp
qed

lemma ingest_file_window:
  "\<forall>q \<in> set (all_of_map (ingest_file cp logfile)). in_contest_period cp (qso_time q)"
  unfolding ingest_file_def by (rule foldl_ingest_qso_window) (simp add: all_of_map_def)

lemma foldl_merge_entry_window:
  "\<forall>q \<in> set (all_of_map (st_all_qsos st)). P q \<Longrightarrow>
   \<forall>q \<in> set (all_of_map entries). P q \<Longrightarrow>
   \<forall>q \<in> set (all_of_map (st_all_qsos (foldl (merge_entry g) st entries))). P q"
proof (induction entries arbitrary: st)
  case Nil
  then show ?case by simp
next
  case (Cons e entries)
  have e: "\<forall>q \<in> set (snd e). P q" and rest: "\<forall>q \<in> set (all_of_map entries). P q"
    using Cons.prems(2) by (auto simp: all_of_map_def)
  have "\<forall>q \<in> set (all_of_map (st_all_qsos (merge_entry g st e))). P q"
    using Cons.prems(1) e set_all_of_map_insert_entry[of "st_all_qsos st" e]
    by (auto simp: merge_entry_def)
  then show ?case using Cons.IH rest by simp
qed

lemma merge_file_window:
  assumes "\<forall>q \<in> set (all_of_map (st_all_qsos st)). in_contest_period cp (qso_time q)"
  shows "\<forall>q \<in> set (all_of_map (st_all_qsos (merge_file g cp st logfile))). in_contest_period cp (qso_time q)"
proof (cases "ingest_file cp logfile = []")
  case True
  then show ?thesis using assms by (simp add: merge_file_def)
next
  case False
  have "\<forall>q \<in> set (all_of_map (st_all_qsos (foldl (merge_entry g)
            (st\<lparr> st_n_valid_logs := st_n_valid_logs st + 1 \<rparr>) (ingest_file cp logfile)))).
          in_contest_period cp (qso_time q)"
    by (rule foldl_merge_entry_window) (use assms ingest_file_window in simp_all)
  then show ?thesis using False by (simp add: merge_file_def Let_def)
qed

lemma ingest_window:
  "\<forall>q \<in> set (all_of_map (st_all_qsos (ingest g cp logfiles))). in_contest_period cp (qso_time q)"
proof -
  have "\<forall>q \<in> set (all_of_map (st_all_qsos st)). in_contest_period cp (qso_time q) \<Longrightarrow>
        \<forall>q \<in> set (all_of_map (st_all_qsos (foldl (merge_file g cp) st logfiles))).
          in_contest_period cp (qso_time q)" for st
  proof (induction logfiles arbitrary: st)
    case Nil
    then show ?case by simp
  next
    case (Cons f fs)
    then show ?case using merge_file_window[of st cp g f] by simp
  qed
  from this[of "\<lparr> st_all_qsos = [], st_scp_calls = {}, st_n_valid_logs = 0 \<rparr>"]
  show ?thesis unfolding ingest_def by (simp add: all_of_map_def)
qed


text \<open>
  The constructor computes \<^verbatim>\<open>_t_end = _t_start + from_string<int>(fields[2]) * 3600\<close>,
  the product in a C++ \<^verbatim>\<open>int\<close>. The product fits the \<^verbatim>\<open>int\<close> exactly when the number
  of hours is between \<open>-596523\<close> and \<open>596523\<close> (68 years); then \<^verbatim>\<open>in_contest_period\<close>
  holds of the times \<open>t\<close> with \<open>t_start \<le> t < t_start + hours \<sqdot> 3600\<close> and of no other.
\<close>

lemma in_contest_period_iff:
  assumes "- 596523 \<le> hrs" and "hrs \<le> 596523"
  shows "in_contest_period (contest_parameters_of dir tt hrs) t \<longleftrightarrow>
         tt \<le> t \<and> t < tt + hrs * 3600"
proof -
  have "int_of (hrs * 3600) = hrs * 3600"
    using assms by (intro int_of_id) auto
  then show ?thesis
    by (simp add: in_contest_period_def contest_parameters_of_def)
qed

text \<open>
  Outside that range the product overflows, which C++ leaves undefined; the model wraps
  around, as the compiled program does, and the end of the window is no longer
  \<open>t_start + hours \<sqdot> 3600\<close>: with 596524 hours it is before the start, with \<open>-596524\<close>
  hours after it.
\<close>

lemma contest_window_outside_int_range:
  "cp_t_end (contest_parameters_of ''logs'' 1667001600 596524) = 1667001600 - 2147480896 \<and>
   cp_t_end (contest_parameters_of ''logs'' 1667001600 (- 596524)) = 1667001600 + 2147480896"
  by (simp add: contest_parameters_of_def int_of_def)

text \<open>
  Claim C5. The contest window is half-open: a QSO whose UTC time equals \<open>t_start\<close>
  exactly is accepted into the contest, a QSO whose UTC time equals
  \<open>t_start + hours \<sqdot> 3600\<close> exactly is rejected, and every QSO that the ingestor retains
  has a UTC time \<open>t\<close> with \<open>t_start \<le> t < t_start + hours \<sqdot> 3600\<close>.

  The rejection at the end, the bound on the retained QSOs and the window itself need
  only that \<open>hours \<sqdot> 3600\<close> fits the \<^verbatim>\<open>int\<close>. The QSO at \<open>t_start\<close> is accepted by every
  contest that lasts at least one hour: a contest of no hours has the empty window
  \<open>[t_start, t_start)\<close>, in which the start and the end of the claim are the same time.
\<close>

theorem contest_window_half_open:
  assumes "- 596523 \<le> hrs" and "hrs \<le> 596523"
  shows "(1 \<le> hrs \<longrightarrow> in_contest_period (contest_parameters_of dir tt hrs) tt) \<and>
         \<not> in_contest_period (contest_parameters_of dir tt hrs) (tt + hrs * 3600) \<and>
         (\<forall>q \<in> set (all_of_map (st_all_qsos (ingest g (contest_parameters_of dir tt hrs) logfiles))).
            tt \<le> qso_time q \<and> qso_time q < tt + hrs * 3600) \<and>
         (\<forall>t. in_contest_period (contest_parameters_of dir tt hrs) t \<longleftrightarrow>
                tt \<le> t \<and> t < tt + hrs * 3600)"
proof -
  note w = in_contest_period_iff[OF assms, of dir tt]
  have retained:
    "\<forall>q \<in> set (all_of_map (st_all_qsos (ingest g (contest_parameters_of dir tt hrs) logfiles))).
       tt \<le> qso_time q \<and> qso_time q < tt + hrs * 3600"
    using ingest_window[of g "contest_parameters_of dir tt hrs" logfiles] by (simp add: w)
  have "1 \<le> hrs \<longrightarrow> in_contest_period (contest_parameters_of dir tt hrs) tt"
    by (simp add: w)
  moreover have "\<not> in_contest_period (contest_parameters_of dir tt hrs) (tt + hrs * 3600)"
    by (simp add: w)
  ultimately show ?thesis using retained w by blast
qed

text \<open>
  A contest of 48 hours and a log with a QSO at the start (id 0), a QSO at the end (id 1)
  and a QSO in the last second (id 2): the ingestor retains the first and the third.
\<close>

theorem contest_window_half_open_witness:
  "- 596523 \<le> (48::int) \<and> (48::int) \<le> 596523 \<and> (1::int) \<le> 48 \<and>
   in_contest_period example_contest 1667001600 \<and>
   \<not> in_contest_period example_contest (1667001600 + 48 * 3600) \<and>
   map qso_id (all_of_map (st_all_qsos (ingest example_globals example_contest
                 [[qso_at_start, qso_at_end, qso_last_second]]))) = [0, 2] \<and>
   set (map qso_time (all_of_map (st_all_qsos (ingest example_globals example_contest
                 [[qso_at_start, qso_at_end, qso_last_second]]))))
     \<subseteq> {1667001600 ..< 1667001600 + 48 * 3600}"
proof -
  have ran: "map qso_id (all_of_map (st_all_qsos (ingest example_globals example_contest
                 [[qso_at_start, qso_at_end, qso_last_second]]))) = [0, 2]"
    by code_simp
  have window: "in_contest_period example_contest 1667001600 \<and>
         \<not> in_contest_period example_contest (1667001600 + 48 * 3600) \<and>
         (\<forall>q \<in> set (all_of_map (st_all_qsos (ingest example_globals example_contest
                        [[qso_at_start, qso_at_end, qso_last_second]]))).
            1667001600 \<le> qso_time q \<and> qso_time q < 1667001600 + 48 * 3600)"
    using contest_window_half_open [of 48 "''logs''" 1667001600 example_globals
        "[[qso_at_start, qso_at_end, qso_last_second]]"]
    by (simp add: example_contest_def)
  then have times: "set (map qso_time (all_of_map (st_all_qsos (ingest example_globals example_contest
                 [[qso_at_start, qso_at_end, qso_last_second]]))))
     \<subseteq> {1667001600 ..< 1667001600 + 48 * 3600}"
    by auto
  show ?thesis
    using ran window times by simp
qed

section \<open>The cutoff of the band pruner\<close>

lemma occurrences_Nil [simp]: "occurrences [] c = 0"
  by (simp add: occurrences_def)

lemma occurrences_Cons:
  "occurrences (q # v) c = (if qso_rcall q = c then 1 else 0) + occurrences v c"
  by (simp add: occurrences_def)

lemma occurrences_pos_iff: "0 < occurrences v c \<longleftrightarrow> c \<in> qso_rcall ` set v"
  by (induction v) (auto simp: occurrences_Cons occurrences_def)

lemma occurrences_nonneg: "0 \<le> occurrences v c"
  by (simp add: occurrences_def)

lemma map_of_count_value:
  "map_of (count_value h v) =
     (map_of h)(v \<mapsto> (case map_of h v of None \<Rightarrow> 1 | Some n \<Rightarrow> n + 1))"
  by (induction h v rule: count_value.induct) (auto simp: fun_eq_iff)

lemma keys_count_value: "fst ` set (count_value h v) = insert v (fst ` set h)"
  by (induction h v rule: count_value.induct) auto

lemma distinct_count_value:
  "distinct (map fst h) \<Longrightarrow> distinct (map fst (count_value h v))"
  by (induction h v rule: count_value.induct) (auto simp: keys_count_value)

lemma map_of_foldl_count_value:
  "map_of (foldl (\<lambda>histogram qso. count_value histogram (qso_rcall qso)) h vec) c =
     (case map_of h c of
        None \<Rightarrow> if c \<in> qso_rcall ` set vec then Some (occurrences vec c) else None
      | Some n \<Rightarrow> Some (n + occurrences vec c))"
proof (induction vec arbitrary: h)
  case Nil
  then show ?case by (simp split: option.splits)
next
  case (Cons q vec)
  show ?case
    using occurrences_pos_iff[of vec c]
    by (simp add: Cons.IH map_of_count_value occurrences_Cons split: option.splits)
qed

lemma map_of_histogram_of:
  "map_of (histogram_of vec) c =
     (if c \<in> qso_rcall ` set vec then Some (occurrences vec c) else None)"
  unfolding histogram_of_def by (simp add: map_of_foldl_count_value)

lemma distinct_histogram_of: "distinct (map fst (histogram_of vec))"
proof -
  have "distinct (map fst h) \<Longrightarrow>
        distinct (map fst (foldl (\<lambda>histogram qso. count_value histogram (qso_rcall qso)) h vec))" for h
    by (induction vec arbitrary: h) (auto simp: distinct_count_value)
  from this[of "[]"] show ?thesis by (simp add: histogram_of_def)
qed

lemma erase_below_cutoff_eq:
  assumes "\<forall>q \<in> set vec. map_of h (qso_rcall q) = Some (f (qso_rcall q))"
  shows "erase_below_cutoff h cutoff vec = Inr (filter (\<lambda>q. \<not> f (qso_rcall q) \<le> cutoff) vec)"
  using assms by (induction vec) (auto simp: at_key_def)

lemma erase_rcalls_verbose_eq:
  "foldl (\<lambda>vec (rcall, n). if n \<le> cutoff then filter (\<lambda>qso. \<not> qso_rcall qso = rcall) vec else vec) vec h
     = filter (\<lambda>q. \<not> (\<exists>(rcall, n) \<in> set h. n \<le> cutoff \<and> qso_rcall q = rcall)) vec"
proof (induction h arbitrary: vec)
  case Nil
  then show ?case by simp
next
  case (Cons e h)
  obtain rcall n where e: "e = (rcall, n)" by (cases e)
  show ?case
    unfolding e by (simp add: Cons.IH)
qed

lemma pass_d_eq:
  "pass_d g vec = Inr (filter (\<lambda>qso. \<not> occurrences vec (qso_rcall qso) \<le> CUTOFF_LIMIT g) vec)"
proof (cases "verbose g")
  case False
  have "\<forall>q \<in> set vec. map_of (histogram_of vec) (qso_rcall q) = Some (occurrences vec (qso_rcall q))"
    by (simp add: map_of_histogram_of)
  from erase_below_cutoff_eq[OF this] show ?thesis
    using False by (simp add: pass_d_def Let_def)
next
  case True
  have key: "(\<exists>(rcall, n) \<in> set (histogram_of vec). n \<le> CUTOFF_LIMIT g \<and> qso_rcall q = rcall) \<longleftrightarrow>
             occurrences vec (qso_rcall q) \<le> CUTOFF_LIMIT g" if "q \<in> set vec" for q
  proof -
    have m: "map_of (histogram_of vec) (qso_rcall q) = Some (occurrences vec (qso_rcall q))"
      using that by (simp add: map_of_histogram_of)
    have "(qso_rcall q, n) \<in> set (histogram_of vec) \<longleftrightarrow> n = occurrences vec (qso_rcall q)" for n
      using m distinct_histogram_of[of vec] by (metis map_of_eq_Some_iff option.inject)
    then show ?thesis by auto
  qed
  have "filter (\<lambda>q. \<not> (\<exists>(rcall, n) \<in> set (histogram_of vec). n \<le> CUTOFF_LIMIT g \<and> qso_rcall q = rcall)) vec
        = filter (\<lambda>qso. \<not> occurrences vec (qso_rcall qso) \<le> CUTOFF_LIMIT g) vec"
    by (rule filter_cong) (use key in auto)
  then show ?thesis
    using True by (simp add: pass_d_def Let_def erase_rcalls_verbose_def erase_rcalls_verbose_eq)
qed

lemma occurrences_filter_rcall:
  "occurrences (filter (\<lambda>qso. P (qso_rcall qso)) vec) c = (if P c then occurrences vec c else 0)"
  by (induction vec) (auto simp: occurrences_Cons)

lemma prune_band_ends_with_pass_d:
  "prune_band g p a no_freq poor_freq m = Inr pv \<Longrightarrow> \<exists>vec. pass_d g vec = Inr pv"
  by (auto simp: prune_band_def Let_def split: if_splits sum.splits)

text \<open>
  Claim C3. In Pass D of the band pruner, after the histogram of received calls has been
  recomputed over the surviving QSOs, every QSO whose received call occurs at most
  \<^verbatim>\<open>CUTOFF_LIMIT\<close> times (1 unless \<^verbatim>\<open>-l\<close> sets it) is dropped: the comparison is
  ``less than or equal'', not ``strictly less'', whether \<^verbatim>\<open>verbose\<close> is on or off. So
  every callsign in the set that \<^verbatim>\<open>process_band\<close> returns has at least
  \<^verbatim>\<open>CUTOFF_LIMIT + 1\<close> surviving QSOs on that band.
\<close>

theorem cutoff_is_at_or_below_limit:
  "pass_d g vec = Inr (filter (\<lambda>qso. \<not> occurrences vec (qso_rcall qso) \<le> CUTOFF_LIMIT g) vec) \<and>
   (\<not> value_present argv ''-l'' \<longrightarrow> CUTOFF_LIMIT (globals_of fns argv) = 1) \<and>
   (process_band g pruned_qsos_this_band all_qsos_this_band no_freq poor_freq max_rel_mins = Inr calls
    \<longrightarrow> (\<exists>pruned_vec.
           prune_band g pruned_qsos_this_band all_qsos_this_band no_freq poor_freq max_rel_mins
             = Inr pruned_vec \<and>
           calls = qso_rcall ` set pruned_vec \<and>
           (\<forall>call \<in> calls. CUTOFF_LIMIT g + 1 \<le> occurrences pruned_vec call)))"
proof
  show "pass_d g vec = Inr (filter (\<lambda>qso. \<not> occurrences vec (qso_rcall qso) \<le> CUTOFF_LIMIT g) vec)"
    by (rule pass_d_eq)
next
  show "(\<not> value_present argv ''-l'' \<longrightarrow> CUTOFF_LIMIT (globals_of fns argv) = 1) \<and>
    (process_band g pruned_qsos_this_band all_qsos_this_band no_freq poor_freq max_rel_mins = Inr calls
    \<longrightarrow> (\<exists>pruned_vec.
           prune_band g pruned_qsos_this_band all_qsos_this_band no_freq poor_freq max_rel_mins
             = Inr pruned_vec \<and>
           calls = qso_rcall ` set pruned_vec \<and>
           (\<forall>call \<in> calls. CUTOFF_LIMIT g + 1 \<le> occurrences pruned_vec call)))"
  proof
    show "\<not> value_present argv ''-l'' \<longrightarrow> CUTOFF_LIMIT (globals_of fns argv) = 1"
      by (simp add: globals_of_def)
  next
  show "process_band g pruned_qsos_this_band all_qsos_this_band no_freq poor_freq max_rel_mins = Inr calls
    \<longrightarrow> (\<exists>pruned_vec.
           prune_band g pruned_qsos_this_band all_qsos_this_band no_freq poor_freq max_rel_mins
             = Inr pruned_vec \<and>
           calls = qso_rcall ` set pruned_vec \<and>
           (\<forall>call \<in> calls. CUTOFF_LIMIT g + 1 \<le> occurrences pruned_vec call))"
  proof
    assume pb: "process_band g pruned_qsos_this_band all_qsos_this_band no_freq poor_freq max_rel_mins = Inr calls"
    then obtain pv where pv: "prune_band g pruned_qsos_this_band all_qsos_this_band no_freq poor_freq max_rel_mins = Inr pv"
      and calls: "calls = qso_rcall ` set pv"
      by (auto simp: process_band_def split: sum.splits)
    from prune_band_ends_with_pass_d[OF pv] obtain v where "pass_d g v = Inr pv" by blast
    then have pv_eq: "pv = filter (\<lambda>qso. \<not> occurrences v (qso_rcall qso) \<le> CUTOFF_LIMIT g) v"
      by (simp add: pass_d_eq)
    have "CUTOFF_LIMIT g + 1 \<le> occurrences pv call" if "call \<in> calls" for call
    proof -
      from that calls obtain q where q: "q \<in> set pv" "qso_rcall q = call" by auto
      then have keep: "\<not> occurrences v call \<le> CUTOFF_LIMIT g" by (auto simp: pv_eq)
      have "occurrences pv call = occurrences v call"
        unfolding pv_eq using keep
        by (simp add: occurrences_filter_rcall[of "\<lambda>c. \<not> occurrences v c \<le> CUTOFF_LIMIT g"])
      then show ?thesis using keep by simp
    qed
    then show "\<exists>pruned_vec.
           prune_band g pruned_qsos_this_band all_qsos_this_band no_freq poor_freq max_rel_mins
             = Inr pruned_vec \<and>
           calls = qso_rcall ` set pruned_vec \<and>
           (\<forall>call \<in> calls. CUTOFF_LIMIT g + 1 \<le> occurrences pruned_vec call)"
      using pv calls by blast
  qed
  qed
qed


theorem cutoff_is_at_or_below_limit_witness:
  "process_band example_globals example_band example_band {} {} 3 = Inr {''KX9XYZ''} \<and>
   \<not> value_present example_argv ''-l'' \<and>
   CUTOFF_LIMIT (globals_of example_functions example_argv) = 1 \<and>
   (\<exists>pruned_vec.
      prune_band example_globals example_band example_band {} {} 3 = Inr pruned_vec \<and>
      {''KX9XYZ''} = qso_rcall ` set pruned_vec \<and>
      (\<forall>call \<in> {''KX9XYZ''}. CUTOFF_LIMIT example_globals + 1 \<le> occurrences pruned_vec call))"
proof -
  have ran: "process_band example_globals example_band example_band {} {} 3 = Inr {''KX9XYZ''}"
    by code_simp
  have no_l: "\<not> value_present example_argv ''-l''"
    by code_simp
  show ?thesis
    using cutoff_is_at_or_below_limit [of example_globals "[]" example_argv example_functions
        example_band example_band "{}" "{}" 3 "{''KX9XYZ''}"] ran no_l
    by blast
qed

section \<open>The output map of a pipeline\<close>

lemma keys_insert_call: "fst ` set (insert_call cmp entry cm) = insert (fst entry) (fst ` set cm)"
  by (induction cm) auto

lemma keys_add_to_call: "fst ` set (add_to_call fns cm call n) = insert call (fst ` set cm)"
proof (cases "call \<in> fst ` set cm")
  case True
  have "fst ` set (map (\<lambda>(k, v). if k = call then (k, v + n) else (k, v)) cm) = fst ` set cm"
    by (induction cm) auto
  then show ?thesis using True by (auto simp: add_to_call_def)
next
  case False
  then show ?thesis by (simp add: add_to_call_def keys_insert_call)
qed

lemma keys_add_call_map: "fst ` set (add_call_map fns cm us) = fst ` set cm \<union> fst ` set us"
  unfolding add_call_map_def
proof (induction us arbitrary: cm)
  case Nil
  then show ?case by simp
next
  case (Cons e us)
  obtain call n where e: "e = (call, n)" by (cases e)
  show ?case
    unfolding e by (simp add: Cons.IH keys_add_to_call)
qed

lemma keys_count_rcalls:
  "fst ` set (foldl (\<lambda>cm qso. if P (qso_rcall qso) then add_to_call fns cm (qso_rcall qso) 1 else cm)
                cm qsos)
     = fst ` set cm \<union> {c \<in> qso_rcall ` set qsos. P c}"
  by (induction qsos arbitrary: cm) (auto simp: keys_add_to_call)

lemma set_SORT: "set (SORT v) = set v"
  unfolding SORT_def by (induction v) (auto simp: set_sort_insert)

lemma set_all_of_map_sort_logs: "set (all_of_map (sort_logs m)) = set (all_of_map m)"
  unfolding sort_logs_def by (induction m) (auto simp: all_of_map_def set_SORT)

lemma keys_count_entrant_rcalls:
  "fst ` set (count_entrant_rcalls fns scp_calls all_qsos) \<subseteq> qso_rcall ` set (all_of_map all_qsos)"
  unfolding count_entrant_rcalls_def
  by (auto simp: keys_count_rcalls[where P = "\<lambda>c. c \<in> scp_calls"])

lemma keys_fill_output_map:
  "fst ` set (fill_output_map fns scp_cm all_qsos returned_calls)
     \<subseteq> fst ` set scp_cm \<union> qso_rcall ` set (all_of_map all_qsos)"
  unfolding fill_output_map_def
  by (auto simp: keys_count_rcalls[where P = "\<lambda>c. c \<in> returned_calls"] keys_add_call_map)

lemma process_directory_Inr:
  assumes "process_directory fns g cp logfiles = Inr rv"
  shows "\<exists>returned_calls.
           rv = fill_output_map fns
                  (count_entrant_rcalls fns (st_scp_calls (ingest g cp logfiles))
                     (sort_logs (st_all_qsos (ingest g cp logfiles))))
                  (sort_logs (st_all_qsos (ingest g cp logfiles))) returned_calls"
proof (cases "st_n_valid_logs (ingest g cp logfiles) = 0")
  case True
  then show ?thesis using assms by (simp add: process_directory_def Let_def del: run_bands.simps)
next
  case False
  let ?all = "sort_logs (st_all_qsos (ingest g cp logfiles))"
  show ?thesis
  proof (cases "calls_with_unreliable_freq ?all (no_freq_info_calls ?all)")
    case (Inl e)
    then show ?thesis using assms False by (simp add: process_directory_def Let_def del: run_bands.simps)
  next
    case (Inr poor)
    show ?thesis
    proof (cases "run_bands g
                    (build_minilog (without_entrant_rcalls (st_scp_calls (ingest g cp logfiles)) ?all))
                    (build_minilog ?all) (no_freq_info_calls ?all) poor
                    (int_of (cp_hours cp * 60 - 1)) [B160, B80, B40, B20, B15, B10]")
      case (Inl e)
      then show ?thesis using assms False Inr by (simp add: process_directory_def Let_def del: run_bands.simps)
    next
      case out: (Inr out_calls)
      then have "rv = fill_output_map fns
                  (count_entrant_rcalls fns (st_scp_calls (ingest g cp logfiles)) ?all)
                  ?all (\<Union> (set out_calls))"
        using assms False Inr by (simp add: process_directory_def Let_def del: run_bands.simps)
      then show ?thesis by blast
    qed
  qed
qed


lemma process_directory_keys:
  assumes "process_directory fns g cp logfiles = Inr rv"
  shows "fst ` set rv \<subseteq> qso_rcall ` set (all_of_map (st_all_qsos (ingest g cp logfiles)))"
proof -
  from process_directory_Inr[OF assms] obtain returned_calls where
    rv: "rv = fill_output_map fns
                  (count_entrant_rcalls fns (st_scp_calls (ingest g cp logfiles))
                     (sort_logs (st_all_qsos (ingest g cp logfiles))))
                  (sort_logs (st_all_qsos (ingest g cp logfiles))) returned_calls"
    by blast
  let ?all = "sort_logs (st_all_qsos (ingest g cp logfiles))"
  let ?scp_cm = "count_entrant_rcalls fns (st_scp_calls (ingest g cp logfiles)) ?all"
  have A: "fst ` set (fill_output_map fns ?scp_cm ?all returned_calls)
             \<subseteq> fst ` set ?scp_cm \<union> qso_rcall ` set (all_of_map ?all)"
    by (rule keys_fill_output_map)
  have B: "fst ` set ?scp_cm \<subseteq> qso_rcall ` set (all_of_map ?all)"
    by (rule keys_count_entrant_rcalls)
  from A B have "fst ` set rv \<subseteq> qso_rcall ` set (all_of_map ?all)"
    unfolding rv by blast
  then show ?thesis by (simp only: set_all_of_map_sort_logs)
qed

text \<open>
  Claim C10. For every contest pipeline, the call-to-count map that it returns contains a
  callsign only if that callsign is the received call of at least one ingested QSO (the
  map is built solely by counting received calls), so an entrant that no log records as a
  received call is absent from the output, whatever \<^verbatim>\<open>-tl\<close> is.
\<close>

theorem output_calls_are_received_calls:
  assumes "process_directory fns g cp logfiles = Inr rv"
  shows "(\<forall>call \<in> fst ` set rv.
            call \<in> qso_rcall ` set (all_of_map (st_all_qsos (ingest g cp logfiles)))) \<and>
         (\<forall>entrant \<in> st_scp_calls (ingest g cp logfiles).
            entrant \<notin> qso_rcall ` set (all_of_map (st_all_qsos (ingest g cp logfiles)))
              \<longrightarrow> entrant \<notin> fst ` set rv)"
  using process_directory_keys[OF assms] by blast


theorem output_calls_are_received_calls_witness:
  "process_directory example_functions example_globals example_hour example_logs
     = Inr [(''A5A'', 1), (''G4XYZ'', 2), (''K2C'', 1), (''W1B'', 2)] \<and>
   ''N7DR'' \<in> st_scp_calls (ingest example_globals example_hour example_logs) \<and>
   ''N7DR'' \<notin> qso_rcall ` set (all_of_map (st_all_qsos (ingest example_globals example_hour example_logs))) \<and>
   ''N7DR'' \<notin> fst ` set [(''A5A'', 1::int), (''G4XYZ'', 2), (''K2C'', 1), (''W1B'', 2)] \<and>
   fst ` set [(''A5A'', 1::int), (''G4XYZ'', 2), (''K2C'', 1), (''W1B'', 2)]
     \<subseteq> qso_rcall ` set (all_of_map (st_all_qsos (ingest example_globals example_hour example_logs)))"
proof -
  have ran: "process_directory example_functions example_globals example_hour example_logs
               = Inr [(''A5A'', 1), (''G4XYZ'', 2), (''K2C'', 1), (''W1B'', 2)]"
    by code_simp
  have entrant: "''N7DR'' \<in> st_scp_calls (ingest example_globals example_hour example_logs)"
    by code_simp
  have unheard: "''N7DR'' \<notin> qso_rcall ` set (all_of_map (st_all_qsos
                    (ingest example_globals example_hour example_logs)))"
    by code_simp
  show ?thesis
    using output_calls_are_received_calls [OF ran] ran entrant unheard by blast
qed

section \<open>The top-percent truncation\<close>

lemma emitted_calls_output_lines:
  "emitted_calls (output_lines xscp cm) = fst ` set cm"
  by (cases xscp) (simp_all add: emitted_calls_def output_lines_def line_call_def image_image)

lemma distinct_insert_call:
  "distinct (map fst cm) \<Longrightarrow> fst entry \<notin> fst ` set cm \<Longrightarrow>
   distinct (map fst (insert_call cmp entry cm))"
  by (induction cm) (auto simp: keys_insert_call)

lemma distinct_add_to_call:
  assumes "distinct (map fst cm)"
  shows "distinct (map fst (add_to_call fns cm call n))"
proof (cases "call \<in> fst ` set cm")
  case True
  have "map fst (map (\<lambda>(k, v). if k = call then (k, v + n) else (k, v)) cm) = map fst cm"
    by (induction cm) auto
  then show ?thesis using True assms by (simp add: add_to_call_def del: map_map)
next
  case False
  then show ?thesis using assms by (simp add: add_to_call_def distinct_insert_call)
qed

lemma distinct_add_call_map:
  "distinct (map fst cm) \<Longrightarrow> distinct (map fst (add_call_map fns cm us))"
  unfolding add_call_map_def
proof (induction us arbitrary: cm)
  case Nil
  then show ?case by simp
next
  case (Cons e us)
  obtain call n where e: "e = (call, n)" by (cases e)
  show ?case
    unfolding e using Cons.prems by (simp add: Cons.IH distinct_add_to_call)
qed

lemma distinct_run_pipelines:
  "run_pipelines fns g env params_vec cm = Inr xscp_calls \<Longrightarrow> distinct (map fst cm) \<Longrightarrow>
   distinct (map fst xscp_calls)"
proof (induction params_vec arbitrary: cm)
  case Nil
  then show ?case by simp
next
  case (Cons cp params_vec)
  show ?case
  proof (cases "process_directory fns g cp (log_files env (cp_directory cp))")
    case (Inl e)
    then show ?thesis using Cons.prems(1) by simp
  next
    case (Inr rv)
    then have "run_pipelines fns g env params_vec (add_call_map fns cm rv) = Inr xscp_calls"
      using Cons.prems(1) by simp
    moreover have "distinct (map fst (add_call_map fns cm rv))"
      using Cons.prems(2) by (rule distinct_add_call_map)
    ultimately show ?thesis by (rule Cons.IH)
  qed
qed

text \<open>
  Claim C4. The top-percent truncation never splits a tie and does nothing at 100. For
  the map that \<^verbatim>\<open>main\<close> has accumulated from the pipelines: when \<^verbatim>\<open>-xpc\<close> is 100, the
  calls emitted in SCP and in XSCP format are the same (all the calls of the map); when
  it is below 100, for every pair of calls of the map, if a call with count \<open>k\<close> is emitted
  then every call with a count greater than or equal to \<open>k\<close> is emitted too. This holds
  whatever threshold \<^verbatim>\<open>value_line\<close> returns.
\<close>

theorem truncation_keeps_ties:
  assumes "run_pipelines fns g env params_vec [] = Inr xscp_calls"
  shows "(PC_OUTPUT g = 100 \<longrightarrow>
            emitted_calls (output_lines False (prune_for_output fns g xscp_calls))
              = emitted_calls (output_lines True (prune_for_output fns g xscp_calls)) \<and>
            emitted_calls (output_lines xscp (prune_for_output fns g xscp_calls)) = fst ` set xscp_calls) \<and>
         (PC_OUTPUT g < 100 \<longrightarrow>
            (\<forall>(call, k) \<in> set xscp_calls. \<forall>(call', k') \<in> set xscp_calls.
               call \<in> emitted_calls (output_lines xscp (prune_for_output fns g xscp_calls)) \<and> k \<le> k'
               \<longrightarrow> call' \<in> emitted_calls (output_lines xscp (prune_for_output fns g xscp_calls))))"
proof -
  have d: "distinct (map fst xscp_calls)"
    using distinct_run_pipelines[OF assms] by simp
  have noop: "PC_OUTPUT g = 100 \<Longrightarrow> prune_for_output fns g xscp_calls = xscp_calls"
    by (simp add: prune_for_output_def)
  have mono: "call' \<in> fst ` set (prune_for_output fns g xscp_calls)"
    if "(call, k) \<in> set xscp_calls" "(call', k') \<in> set xscp_calls"
       "call \<in> fst ` set (prune_for_output fns g xscp_calls)" "k \<le> k'" for call k call' k'
  proof (cases "PC_OUTPUT g = 100")
    case True
    then show ?thesis using that(2) noop by force
  next
    case False
    define val_limit where "val_limit = value_line fns (map snd xscp_calls) (PC_OUTPUT g)"
    have p: "prune_for_output fns g xscp_calls = filter (\<lambda>pr. \<not> snd pr < val_limit) xscp_calls"
      using False by (simp add: prune_for_output_def val_limit_def)
    from that(3) obtain k2 where k2: "(call, k2) \<in> set xscp_calls" "\<not> k2 < val_limit"
      unfolding p by auto
    have "k2 = k" using d k2(1) that(1) by (meson eq_key_imp_eq_value)
    then have "\<not> k' < val_limit" using k2(2) that(4) by simp
    then show ?thesis unfolding p using that(2) by force
  qed
  have one: "PC_OUTPUT g = 100 \<longrightarrow>
            emitted_calls (output_lines False (prune_for_output fns g xscp_calls))
              = emitted_calls (output_lines True (prune_for_output fns g xscp_calls)) \<and>
            emitted_calls (output_lines xscp (prune_for_output fns g xscp_calls)) = fst ` set xscp_calls"
    using noop by (simp add: emitted_calls_output_lines)
  have two: "\<forall>(call, k) \<in> set xscp_calls. \<forall>(call', k') \<in> set xscp_calls.
               call \<in> emitted_calls (output_lines xscp (prune_for_output fns g xscp_calls)) \<and> k \<le> k'
               \<longrightarrow> call' \<in> emitted_calls (output_lines xscp (prune_for_output fns g xscp_calls))"
    unfolding emitted_calls_output_lines using mono by blast
  show ?thesis using one two by blast
qed

theorem truncation_keeps_ties_witness:
  "run_pipelines example_functions example_globals example_environment [example_hour] []
     = Inr [(''A5A'', 1), (''G4XYZ'', 2), (''K2C'', 1), (''W1B'', 2)] \<and>
   PC_OUTPUT example_globals = 100 \<and>
   emitted_calls (output_lines False (prune_for_output example_functions example_globals
                    [(''A5A'', 1), (''G4XYZ'', 2), (''K2C'', 1), (''W1B'', 2)]))
     = emitted_calls (output_lines True (prune_for_output example_functions example_globals
                    [(''A5A'', 1), (''G4XYZ'', 2), (''K2C'', 1), (''W1B'', 2)])) \<and>
   run_pipelines example_functions example_top_half example_environment [example_hour] []
     = Inr [(''A5A'', 1), (''G4XYZ'', 2), (''K2C'', 1), (''W1B'', 2)] \<and>
   PC_OUTPUT example_top_half < 100 \<and>
   ''G4XYZ'' \<in> emitted_calls (output_lines True (prune_for_output example_functions
                    example_top_half [(''A5A'', 1), (''G4XYZ'', 2), (''K2C'', 1), (''W1B'', 2)])) \<and>
   ''W1B'' \<in> emitted_calls (output_lines True (prune_for_output example_functions
                    example_top_half [(''A5A'', 1), (''G4XYZ'', 2), (''K2C'', 1), (''W1B'', 2)])) \<and>
   ''A5A'' \<notin> emitted_calls (output_lines True (prune_for_output example_functions
                    example_top_half [(''A5A'', 1), (''G4XYZ'', 2), (''K2C'', 1), (''W1B'', 2)]))"
proof -
  have ran: "run_pipelines example_functions example_globals example_environment [example_hour] []
               = Inr [(''A5A'', 1), (''G4XYZ'', 2), (''K2C'', 1), (''W1B'', 2)]"
    by code_simp
  have ran_half: "run_pipelines example_functions example_top_half example_environment [example_hour] []
               = Inr [(''A5A'', 1), (''G4XYZ'', 2), (''K2C'', 1), (''W1B'', 2)]"
    by code_simp
  have all: "PC_OUTPUT example_globals = 100"
    by (simp add: example_globals_def)
  have half: "PC_OUTPUT example_top_half < 100"
    by (simp add: example_top_half_def example_globals_def)
  have kept: "''G4XYZ'' \<in> emitted_calls (output_lines True (prune_for_output example_functions
                    example_top_half [(''A5A'', 1), (''G4XYZ'', 2), (''K2C'', 1), (''W1B'', 2)]))"
    by code_simp
  have dropped: "''A5A'' \<notin> emitted_calls (output_lines True (prune_for_output example_functions
                    example_top_half [(''A5A'', 1), (''G4XYZ'', 2), (''K2C'', 1), (''W1B'', 2)]))"
    by code_simp
  have same: "emitted_calls (output_lines False (prune_for_output example_functions example_globals
                    [(''A5A'', 1), (''G4XYZ'', 2), (''K2C'', 1), (''W1B'', 2)]))
     = emitted_calls (output_lines True (prune_for_output example_functions example_globals
                    [(''A5A'', 1), (''G4XYZ'', 2), (''K2C'', 1), (''W1B'', 2)]))"
    using truncation_keeps_ties [OF ran, of False] all by blast
  have ties: "\<forall>(call, k) \<in> set [(''A5A'', 1::int), (''G4XYZ'', 2), (''K2C'', 1), (''W1B'', 2)].
    \<forall>(call', k') \<in> set [(''A5A'', 1::int), (''G4XYZ'', 2), (''K2C'', 1), (''W1B'', 2)].
       call \<in> emitted_calls (output_lines True (prune_for_output example_functions example_top_half
                    [(''A5A'', 1), (''G4XYZ'', 2), (''K2C'', 1), (''W1B'', 2)])) \<and> k \<le> k'
       \<longrightarrow> call' \<in> emitted_calls (output_lines True (prune_for_output example_functions
                    example_top_half [(''A5A'', 1), (''G4XYZ'', 2), (''K2C'', 1), (''W1B'', 2)]))"
    using truncation_keeps_ties [OF ran_half, of True] half by blast
  have tie: "''W1B'' \<in> emitted_calls (output_lines True (prune_for_output example_functions
                    example_top_half [(''A5A'', 1), (''G4XYZ'', 2), (''K2C'', 1), (''W1B'', 2)]))"
    using ties kept by simp
  show ?thesis
    using ran ran_half all half kept tie dropped same by (intro conjI)
qed

section \<open>The exit code\<close>

lemma schedule_cases:
  "schedule fns env argv params_vec = Exit (- 1) \<or>
   schedule fns env argv params_vec = Runs_forever \<or>
   (\<exists>e. schedule fns env argv params_vec = outcome_of_failure e) \<or>
   (\<exists>ls. schedule fns env argv params_vec = Return 1 ls)"
  by (simp add: schedule_def Let_def split: sum.splits) blast

lemma main_cases:
  "main fns env argv = Exit (- 1) \<or>
   main fns env argv = Runs_forever \<or>
   (\<exists>e. main fns env argv = outcome_of_failure e) \<or>
   (\<exists>ls. main fns env argv = Return 1 ls)"
proof -
  define P where "P = (\<lambda>out. out = Exit (- 1) \<or> out = Runs_forever \<or>
                         (\<exists>e. out = outcome_of_failure e) \<or> (\<exists>ls. out = Return 1 ls))"
  have 1: "P (Exit (- 1))" by (simp add: P_def)
  have 2: "P (outcome_of_failure e)" for e unfolding P_def by blast
  have 3: "P (schedule fns env argv params_vec)" for params_vec
    unfolding P_def by (rule schedule_cases)
  have "P (main fns env argv)"
    unfolding main_def Let_def by (simp add: 1 2 3 split: sum.splits)
  then show ?thesis unfolding P_def .
qed

lemma main_never_exits_zero: "exit_code (main fns env argv) \<noteq> Some 0"
proof -
  have f: "exit_code (outcome_of_failure e) \<noteq> Some 0" for e
    by (cases e) (simp_all add: outcome_of_failure_def exit_code_def)
  from main_cases[of fns env argv] show ?thesis
    using f by (auto simp: exit_code_def)
qed

text \<open>
  Without \<^verbatim>\<open>-dir\<close>, \<^verbatim>\<open>main\<close> calls \<^verbatim>\<open>exit(-1)\<close>, and the exit code is 255.
\<close>

lemma main_without_dir:
  "\<not> value_present argv ''-dir'' \<Longrightarrow>
     main fns env argv = Exit (- 1) \<and> exit_code (main fns env argv) = Some 255"
  by (simp add: main_def exit_code_def)

text \<open>
  Claim C9 says that on a successful run (all configuration checks pass and every contest
  directory yields at least one valid log) the exit code of the process is 0. The run
  \<^verbatim>\<open>drscp -dir logs -start 2022-10-29 -hrs 1\<close> over the four example logs passes every
  check, writes its four calls, and ends with \<^verbatim>\<open>return 1\<close>: the exit code is 1. (Lemma
  \<open>main_never_exits_zero\<close> above: no run of \<^verbatim>\<open>main\<close> ends with exit code 0.)
\<close>

theorem main_returns_one_on_success:
  "main example_functions example_environment example_argv
     = Return 1 [Call_line ''A5A'', Call_line ''G4XYZ'', Call_line ''K2C'', Call_line ''W1B''] \<and>
   exit_code (main example_functions example_environment example_argv) = Some 1"
  by code_simp

section \<open>The frequency-quality threshold\<close>

text \<open>The exponent that the rounding uses is the right one.\<close>

lemma bit_length_bounds:
  "0 < n \<Longrightarrow> 2 ^ (bit_length n - 1) \<le> n \<and> n < 2 ^ bit_length n"
proof (induction n rule: bit_length.induct)
  case (1 n)
  show ?case
  proof (cases "n div 2 = 0")
    case True
    with "1.prems" have n1: "n = 1" by (simp add: div_eq_0_iff) 
    have "bit_length 1 = 1"
      by (subst bit_length.simps, simp, subst bit_length.simps, simp)
    then show ?thesis using n1 by simp
  next
    case False
    then have pos: "0 < n div 2" by simp
    have ih: "2 ^ (bit_length (n div 2) - 1) \<le> n div 2 \<and> n div 2 < 2 ^ bit_length (n div 2)"
      using "1.IH" "1.prems" pos by simp
    have bl: "bit_length n = Suc (bit_length (n div 2))"
      using "1.prems" by (subst bit_length.simps) simp
    have blpos: "0 < bit_length (n div 2)"
      using pos by (subst bit_length.simps) simp
    have "2 ^ bit_length (n div 2) \<le> n"
    proof -
      have "2 * 2 ^ (bit_length (n div 2) - 1) \<le> 2 * (n div 2)" using ih by simp
      moreover have "2 * 2 ^ (bit_length (n div 2) - 1) = (2::nat) ^ bit_length (n div 2)"
        using blpos by (metis Suc_pred' power_Suc)
      ultimately show ?thesis by linarith
    qed
    moreover have "n < 2 * 2 ^ bit_length (n div 2)"
      using ih by linarith
    ultimately show ?thesis by (simp add: bl)
  qed
qed

lemma bit_length_pos: "0 < n \<Longrightarrow> 0 < bit_length n"
  by (subst bit_length.simps) simp

lemma floor_log2_bounds:
  assumes "0 < x"
  shows "pow2 (floor_log2 x) \<le> x \<and> x < pow2 (floor_log2 x + 1)"
proof (cases "1 \<le> x")
  case True
  define n where "n = nat \<lfloor>x\<rfloor>"
  have npos: "0 < n" using True by (simp add: n_def)
  have nle: "of_nat n \<le> x" using True by (simp add: n_def)
  have xlt: "x < of_nat n + 1" using True by (simp add: n_def) linarith
  define b where "b = bit_length n"
  have bpos: "0 < b" using npos by (simp add: b_def bit_length_pos)
  have bb: "2 ^ (b - 1) \<le> n" "n < 2 ^ b" using bit_length_bounds[OF npos] by (simp_all add: b_def)
  have e: "floor_log2 x = int b - 1" using True by (simp add: floor_log2_def n_def b_def)
  have p1: "pow2 (int b - 1) = 2 ^ (b - 1)"
    using bpos by (simp add: pow2_def nat_diff_distrib')
  have p2: "pow2 (floor_log2 x + 1) = 2 ^ b" by (simp add: e pow2_def)
  have lo: "(2::rat) ^ (b - 1) \<le> of_nat n"
    using bb(1) by (metis of_nat_le_iff of_nat_numeral of_nat_power)
  have hi: "(of_nat n :: rat) + 1 \<le> 2 ^ b"
  proof -
    have "n + 1 \<le> 2 ^ b" using bb(2) by simp
    then have "(of_nat (n + 1) :: rat) \<le> of_nat (2 ^ b)" by (simp only: of_nat_le_iff)
    then show ?thesis by simp
  qed
  have "pow2 (floor_log2 x) \<le> x" unfolding e p1 using lo nle by linarith
  moreover have "x < pow2 (floor_log2 x + 1)" unfolding p2 using hi xlt by linarith
  ultimately show ?thesis by simp
next
  case False
  then have x1: "x < 1" by simp
  define y where "y = 1 / x"
  have y1: "1 < y" using assms x1 by (simp add: y_def)
  define c where "c = \<lceil>y\<rceil>"
  have c2: "2 \<le> c" using y1 by (simp add: c_def)
  have yc: "y \<le> of_int c" by (simp add: c_def)
  have cy: "of_int c - 1 < y" by (simp add: c_def) linarith
  define m where "m = nat (c - 1)"
  have mpos: "0 < m" using c2 by (simp add: m_def)
  have mc: "int m = c - 1" using c2 by (simp add: m_def)
  define b where "b = bit_length m"
  have bpos: "0 < b" using mpos by (simp add: b_def bit_length_pos)
  have bb: "2 ^ (b - 1) \<le> m" "m < 2 ^ b" using bit_length_bounds[OF mpos] by (simp_all add: b_def)
  have e: "floor_log2 x = - int b" using False by (simp add: floor_log2_def y_def c_def m_def b_def)
  have p1: "pow2 (- int b) = 1 / 2 ^ b" using bpos by (simp add: pow2_def)
  have p2: "pow2 (floor_log2 x + 1) = 1 / 2 ^ (b - 1)"
  proof (cases "b = 1")
    case True
    then show ?thesis by (simp add: e pow2_def)
  next
    case False
    then have "1 < b" using bpos by simp
    then have "\<not> (- int b + 1 \<ge> 0)" and "nat (- (- int b + 1)) = b - 1" by auto
    then show ?thesis by (simp add: e pow2_def)
  qed
  have up: "y \<le> 2 ^ b"
  proof -
    have "m + 1 \<le> 2 ^ b" using bb(2) by simp
    then have "int (m + 1) \<le> int (2 ^ b)" by (simp only: of_nat_le_iff)
    then have "int m + 1 \<le> 2 ^ b" by simp
    then have "c \<le> 2 ^ b" using mc by simp
    then have "(of_int c :: rat) \<le> of_int (2 ^ b)" by (simp only: of_int_le_iff)
    then have "(of_int c :: rat) \<le> 2 ^ b" by simp
    then show ?thesis using yc by linarith
  qed
  have lo: "2 ^ (b - 1) < y"
  proof -
    have "(2::int) ^ (b - 1) \<le> int m" using bb(1) by (metis of_nat_le_iff of_nat_numeral of_nat_power)
    then have "(2::int) ^ (b - 1) \<le> c - 1" using mc by simp
    then have "(of_int (2 ^ (b - 1)) :: rat) \<le> of_int (c - 1)" by (simp only: of_int_le_iff)
    then have "(2::rat) ^ (b - 1) \<le> of_int c - 1" by simp
    then show ?thesis using cy by linarith
  qed
  have xy: "x = 1 / y" using assms by (simp add: y_def)
  have ypos: "0 < y" using y1 by simp
  have A: "pow2 (floor_log2 x) = 1 / 2 ^ b" by (simp add: e p1)
  have "1 / 2 ^ b \<le> 1 / y" using up ypos by (simp add: frac_le)
  then have "pow2 (floor_log2 x) \<le> 1 / y" by (simp only: A)
  then have "pow2 (floor_log2 x) \<le> x" using xy by simp
  moreover have "1 / y < 1 / 2 ^ (b - 1)" using lo by (simp add: frac_less2)
  then have "1 / y < pow2 (floor_log2 x + 1)" by (simp only: p2)
  then have "x < pow2 (floor_log2 x + 1)" using xy by simp
  ultimately show ?thesis by simp
qed

text \<open>
  The rounding is the one of IEEE 754: the result is within half a unit in the last place
  of the argument, a tie goes to the even significand, the result has a significand of at
  most \<open>p\<close> bits, the rounding is monotone, and an integer below \<open>2\<^sup>2\<^sup>4\<close> is a
  \<^verbatim>\<open>float\<close>.
\<close>

lemma pow2_powi: "pow2 e = 2 powi e"
  by (simp add: pow2_def power_int_def inverse_eq_divide power_one_over)

lemma pow2_pos: "0 < pow2 e"
  by (simp add: pow2_powi)

lemma pow2_add: "pow2 (a + b) = pow2 a * pow2 b"
  by (simp add: pow2_powi power_int_add)

lemma round_half_even_near: "\<bar>of_int (round_half_even m) - m\<bar> \<le> 1 / 2"
proof -
  have "of_int \<lfloor>m\<rfloor> \<le> m" "m < of_int \<lfloor>m\<rfloor> + 1" by linarith+
  then show ?thesis
    by (auto simp: round_half_even_def Let_def abs_le_iff)
qed

lemma round_half_even_tie:
  "m - of_int \<lfloor>m\<rfloor> = 1 / 2 \<Longrightarrow> even (round_half_even m)"
  by (simp add: round_half_even_def Let_def)

lemma round_half_even_mono: "a \<le> b \<Longrightarrow> round_half_even a \<le> round_half_even b"
proof -
  assume ab: "a \<le> b"
  have fa: "of_int \<lfloor>a\<rfloor> \<le> a" "a < of_int \<lfloor>a\<rfloor> + 1" by linarith+
  have fb: "of_int \<lfloor>b\<rfloor> \<le> b" "b < of_int \<lfloor>b\<rfloor> + 1" by linarith+
  have fl: "\<lfloor>a\<rfloor> \<le> \<lfloor>b\<rfloor>" using ab by (rule floor_mono)
  show ?thesis
  proof (cases "\<lfloor>a\<rfloor> = \<lfloor>b\<rfloor>")
    case True
    then show ?thesis using ab by (auto simp: round_half_even_def Let_def)
  next
    case False
    then have "\<lfloor>a\<rfloor> + 1 \<le> \<lfloor>b\<rfloor>" using fl by simp
    moreover have "round_half_even a \<le> \<lfloor>a\<rfloor> + 1" by (simp add: round_half_even_def Let_def)
    moreover have "\<lfloor>b\<rfloor> \<le> round_half_even b" by (simp add: round_half_even_def Let_def)
    ultimately show ?thesis by linarith
  qed
qed

lemma binary_round_near:
  assumes "x \<noteq> 0"
  shows "\<bar>binary_round p x - x\<bar> \<le> pow2 (floor_log2 \<bar>x\<bar> - (int p - 1)) / 2"
proof -
  define ulp where "ulp = pow2 (floor_log2 \<bar>x\<bar> - (int p - 1))"
  have up: "0 < ulp" by (simp add: ulp_def pow2_pos)
  define m where "m = \<bar>x\<bar> / ulp"
  have br: "binary_round p x = sgn x * (of_int (round_half_even m) * ulp)"
    using assms by (simp add: binary_round_def Let_def ulp_def m_def)
  have mx: "m * ulp = \<bar>x\<bar>" using up by (simp add: m_def)
  have "binary_round p x - x = sgn x * (of_int (round_half_even m) * ulp) - sgn x * \<bar>x\<bar>"
    by (metis br sgn_mult_abs)
  also have "\<dots> = sgn x * ((of_int (round_half_even m) - m) * ulp)"
    by (simp add: mx[symmetric] algebra_simps)
  finally have "\<bar>binary_round p x - x\<bar> = \<bar>of_int (round_half_even m) - m\<bar> * ulp"
    using assms up by (simp add: abs_mult abs_sgn_eq)
  also have "\<dots> \<le> (1 / 2) * ulp"
    using round_half_even_near[of m] up by (simp add: mult_right_mono)
  finally show ?thesis by (simp add: ulp_def)
qed

lemma binary_round_significand:
  assumes "x \<noteq> 0" and "0 < p"
  shows "\<exists>k. \<bar>binary_round p x\<bar> = of_int k * pow2 (floor_log2 \<bar>x\<bar> - (int p - 1)) \<and>
             2 ^ (p - 1) \<le> k \<and> k \<le> 2 ^ p"
proof -
  define e where "e = floor_log2 \<bar>x\<bar>"
  define ulp where "ulp = pow2 (e - (int p - 1))"
  have up: "0 < ulp" by (simp add: ulp_def pow2_pos)
  define m where "m = \<bar>x\<bar> / ulp"
  have xpos: "0 < \<bar>x\<bar>" using assms by simp
  have b: "pow2 e \<le> \<bar>x\<bar>" "\<bar>x\<bar> < pow2 (e + 1)"
    using floor_log2_bounds[OF xpos] by (simp_all add: e_def)
  have lo_eq: "pow2 e = 2 ^ (p - 1) * ulp"
  proof -
    have "pow2 e = pow2 (int p - 1) * ulp"
      unfolding ulp_def by (simp flip: pow2_add)
    moreover have "pow2 (int p - 1) = 2 ^ (p - 1)"
      using assms(2) by (simp add: pow2_def nat_diff_distrib')
    ultimately show ?thesis by simp
  qed
  have hi_eq: "pow2 (e + 1) = 2 ^ p * ulp"
  proof -
    have "pow2 (e + 1) = pow2 (int p) * ulp"
      unfolding ulp_def by (simp flip: pow2_add)
    moreover have "pow2 (int p) = 2 ^ p" by (simp add: pow2_def)
    ultimately show ?thesis by simp
  qed
  have mlo: "2 ^ (p - 1) \<le> m" using b(1) up by (simp add: m_def lo_eq pos_le_divide_eq)
  have mhi: "m \<le> 2 ^ p" using b(2) up by (simp add: m_def hi_eq pos_divide_le_eq less_imp_le)
  have r1: "round_half_even (2 ^ (p - 1)) = 2 ^ (p - 1)"
    by (simp add: round_half_even_def Let_def)
  have r2: "round_half_even (2 ^ p) = 2 ^ p"
    by (simp add: round_half_even_def Let_def)
  have klo: "2 ^ (p - 1) \<le> round_half_even m"
    using round_half_even_mono[OF mlo] by (simp only: r1)
  have khi: "round_half_even m \<le> 2 ^ p"
    using round_half_even_mono[OF mhi] by (simp only: r2)
  have br: "binary_round p x = sgn x * of_int (round_half_even m) * ulp"
    using assms by (simp add: binary_round_def Let_def ulp_def m_def e_def)
  have "(0::int) \<le> 2 ^ (p - 1)" by simp
  then have "0 \<le> round_half_even m" using klo by linarith
  then have "\<bar>binary_round p x\<bar> = of_int (round_half_even m) * ulp"
    using assms(1) up by (simp add: br abs_mult abs_sgn_eq)
  then show ?thesis using klo khi by (auto simp: ulp_def e_def)
qed


lemma bit_length_1: "bit_length (Suc 0) = Suc 0"
  by (subst bit_length.simps, simp, subst bit_length.simps, simp)

lemma floor_log2_half_to_one:
  assumes "1 / 2 \<le> q" and "q < 1"
  shows "floor_log2 q = - 1"
proof -
  have qpos: "0 < q" using assms by simp
  have "1 < 1 / q" using assms qpos by simp
  moreover have "1 / q \<le> 2" using assms qpos by (simp add: field_simps)
  ultimately have "\<lceil>1 / q\<rceil> = 2" by (simp add: ceiling_eq_iff) 
  then show ?thesis using assms by (simp add: floor_log2_def bit_length_1)
qed

lemma pow2_mono: "a \<le> b \<Longrightarrow> pow2 a \<le> pow2 b"
  by (simp add: pow2_powi power_int_increasing)

lemma floor_log2_below_half:
  assumes "0 < q" and "q < 1 / 2"
  shows "floor_log2 q \<le> - 2"
proof (rule ccontr)
  assume "\<not> floor_log2 q \<le> - 2"
  then have "- 1 \<le> floor_log2 q" by simp
  then have "pow2 (- 1) \<le> pow2 (floor_log2 q)" by (rule pow2_mono)
  moreover have "pow2 (- 1) = 1 / 2" by (simp add: pow2_def)
  ultimately show False using floor_log2_bounds[OF assms(1)] assms(2) by simp
qed

lemma to_float_below_half:
  assumes "0 \<le> q" and "q < 1 / 2"
  shows "to_float q \<le> 1 / 2"
proof (cases "q = 0")
  case True
  then show ?thesis by (simp add: to_float_def binary_round_def)
next
  case False
  then have qpos: "0 < q" using assms by simp
  from binary_round_significand[of q 24] False obtain k where
    k: "\<bar>binary_round 24 q\<bar> = of_int k * pow2 (floor_log2 \<bar>q\<bar> - (int 24 - 1))" "k \<le> 2 ^ 24"
    by auto
  have e: "floor_log2 \<bar>q\<bar> \<le> - 2" using floor_log2_below_half[OF qpos assms(2)] qpos by simp
  have "pow2 (floor_log2 \<bar>q\<bar> - (int 24 - 1)) \<le> pow2 (- 25)"
    using e by (intro pow2_mono) simp
  moreover have "pow2 (- 25) = 1 / 2 ^ 25" by (simp add: pow2_def)
  ultimately have u: "pow2 (floor_log2 \<bar>q\<bar> - (int 24 - 1)) \<le> 1 / 2 ^ 25" by simp
  have kr: "(of_int k :: rat) \<le> 2 ^ 24"
  proof -
    have "(of_int k :: rat) \<le> of_int (2 ^ 24)" using k(2) by (simp only: of_int_le_iff)
    then show ?thesis by simp
  qed
  have "of_int k * pow2 (floor_log2 \<bar>q\<bar> - (int 24 - 1)) \<le> 2 ^ 24 * (1 / 2 ^ 25)"
    using kr u pow2_pos[of "floor_log2 \<bar>q\<bar> - (int 24 - 1)"]
    by (intro mult_mono) simp_all
  then have "\<bar>binary_round 24 q\<bar> \<le> 1 / 2" by (simp add: k(1))
  then show ?thesis by (simp add: to_float_def)
qed

lemma to_float_in_top_binade:
  assumes "1 / 2 \<le> q" and "q < 1"
  shows "to_float q = of_int (round_half_even (q * 2 ^ 24)) / 2 ^ 24"
proof -
  have qpos: "0 < q" using assms by simp
  have a: "\<bar>q\<bar> = q" using qpos by simp
  have e: "floor_log2 q = - 1" by (rule floor_log2_half_to_one[OF assms])
  have u: "pow2 (- 1 - (int 24 - 1)) = 1 / 2 ^ 24" by (simp add: pow2_def)
  have "binary_round 24 q = sgn q * of_int (round_half_even (q / (1 / 2 ^ 24))) * (1 / 2 ^ 24)"
    using qpos unfolding binary_round_def Let_def a e u by simp
  then show ?thesis using qpos by (simp add: to_float_def)
qed

lemma round_half_even_of_int: "round_half_even (of_int k) = k"
  by (simp add: round_half_even_def Let_def)

lemma to_float_of_small_int:
  assumes "0 \<le> n" and "n < 2 ^ 24"
  shows "to_float (of_int n) = of_int n"
proof (cases "n = 0")
  case True
  then show ?thesis by (simp add: to_float_def binary_round_def)
next
  case False
  then have npos: "0 < n" using assms by simp
  define x :: rat where "x = of_int n"
  have xpos: "0 < x" using npos by (simp add: x_def)
  define e where "e = floor_log2 \<bar>x\<bar>"
  have b: "pow2 e \<le> x" using floor_log2_bounds[of "\<bar>x\<bar>"] xpos by (simp add: e_def)
  have "x < 2 ^ 24"
  proof -
    have "(of_int n :: rat) < of_int (2 ^ 24)" using assms(2) by (simp only: of_int_less_iff)
    then show ?thesis by (simp add: x_def)
  qed
  then have "pow2 e < pow2 24" using b by (simp add: pow2_def)
  then have e23: "e \<le> 23" using pow2_mono[of 24 e] by (cases "e \<le> 23") auto
  define d where "d = nat (23 - e)"
  have ulp: "pow2 (e - (int 24 - 1)) = 1 / 2 ^ d"
  proof (cases "e = 23")
    case True
    then show ?thesis by (simp add: pow2_def d_def)
  next
    case False
    then have "e < 23" using e23 by simp
    then show ?thesis by (simp add: pow2_def d_def)
  qed
  have ulp': "pow2 (e - 23) = 1 / 2 ^ d" using ulp by simp
  have m: "\<bar>x\<bar> / pow2 (e - 23) = of_int (n * 2 ^ d)"
    using xpos by (simp add: ulp' x_def)
  have r: "round_half_even (of_int (n * 2 ^ d)) = n * 2 ^ d"
    by (rule round_half_even_of_int)
  have "binary_round 24 x = sgn x * of_int (round_half_even (\<bar>x\<bar> / pow2 (e - 23))) * pow2 (e - 23)"
    using xpos by (simp add: binary_round_def Let_def e_def)
  also have "\<dots> = sgn x * of_int (n * 2 ^ d) * pow2 (e - 23)"
    by (simp only: m r)
  also have "\<dots> = of_int (n * 2 ^ d) * (1 / 2 ^ d)"
    using xpos by (simp only: ulp' sgn_pos mult_1)
  finally have "binary_round 24 x = of_int (n * 2 ^ d) * (1 / 2 ^ d)" .
  then show ?thesis by (simp add: to_float_def x_def)
qed


lemma round_half_even_le_even:
  assumes "even K"
  shows "round_half_even m \<le> K \<longleftrightarrow> m \<le> of_int K + 1 / 2"
proof
  assume le: "m \<le> of_int K + 1 / 2"
  have "\<lfloor>of_int K + 1 / 2 :: rat\<rfloor> = K" by (simp add: floor_eq_iff)
  then have "round_half_even (of_int K + 1 / 2) = K"
    using assms by (simp add: round_half_even_def Let_def)
  then show "round_half_even m \<le> K"
    using round_half_even_mono[OF le] by simp
next
  assume r: "round_half_even m \<le> K"
  show "m \<le> of_int K + 1 / 2"
  proof (rule ccontr)
    assume "\<not> m \<le> of_int K + 1 / 2"
    then have gt: "of_int K + 1 / 2 < m" by simp
    then have fl: "K \<le> \<lfloor>m\<rfloor>" by (simp add: le_floor_iff)
    have "K + 1 \<le> round_half_even m"
    proof (cases "\<lfloor>m\<rfloor> = K")
      case True
      then have "1 / 2 < m - of_int \<lfloor>m\<rfloor>" using gt by simp
      then show ?thesis using True by (simp add: round_half_even_def Let_def)
    next
      case False
      then have "K + 1 \<le> \<lfloor>m\<rfloor>" using fl by simp
      moreover have "\<lfloor>m\<rfloor> \<le> round_half_even m" by (simp add: round_half_even_def Let_def)
      ultimately show ?thesis by linarith
    qed
    then show False using r by simp
  qed
qed

text \<open>
  The two numbers that the test \<^verbatim>\<open>good_fraction < 0.9\<close> compares when nine of ten
  pairings are good: the \<^verbatim>\<open>float\<close> nearest to nine tenths is below nine tenths, the
  \<^verbatim>\<open>double\<close> nearest to nine tenths is above.
\<close>

lemma nine_tenths_in_float_and_double:
  "to_float (to_float 9 / to_float 10) = 15099494 / 2 ^ 24 \<and>
   to_double (9 / 10) = 8106479329266893 / 2 ^ 53 \<and>
   (15099494 / 2 ^ 24 :: rat) < 9 / 10 \<and> (9 / 10 :: rat) < 8106479329266893 / 2 ^ 53"
  by code_simp

text \<open>
  The threshold the classifier has: with fewer than \<open>2\<^sup>2\<^sup>4\<close> pairings, a sender is poor
  exactly when its ratio of good to total pairings is at most \<open>30198989 / 2\<^sup>2\<^sup>5\<close>, a
  number a little above nine tenths.
\<close>

lemma to_double_nine_tenths: "to_double (9 / 10) = 8106479329266893 / 2 ^ 53"
  by code_simp

lemma unreliable_threshold:
  assumes "0 \<le> good" and "good \<le> total_n" and "0 < total_n" and "total_n < 2 ^ 24"
  shows "unreliable (total_n, good) \<longleftrightarrow> good * 33554432 \<le> 30198989 * total_n"
proof -
  define q :: rat where "q = of_int good / of_int total_n"
  have tpos: "(0::rat) < of_int total_n" using assms(3) by simp
  have g24: "good < 2 ^ 24" using assms by simp
  have gf: "to_float (to_float (of_int good) / to_float (of_int total_n)) = to_float q"
    using to_float_of_small_int[OF assms(1) g24] to_float_of_small_int[of total_n] assms
    by (simp add: q_def)
  have u: "unreliable (total_n, good) \<longleftrightarrow> to_float q < 8106479329266893 / 2 ^ 53"
    using assms(3) by (simp add: unreliable_def Let_def gf to_double_nine_tenths)
  have q0: "0 \<le> q" using assms by (simp add: q_def)
  have q1: "q \<le> 1" using assms tpos by (simp add: q_def)
  have rhs: "good * 33554432 \<le> 30198989 * total_n \<longleftrightarrow> q \<le> 30198989 / 33554432"
  proof -
    have "q \<le> 30198989 / 33554432 \<longleftrightarrow> of_int good * 33554432 \<le> (30198989 * of_int total_n :: rat)"
      using tpos by (simp add: q_def field_simps)
    also have "\<dots> \<longleftrightarrow> (of_int (good * 33554432) :: rat) \<le> of_int (30198989 * total_n)"
      by simp
    also have "\<dots> \<longleftrightarrow> good * 33554432 \<le> 30198989 * total_n"
      by (simp only: of_int_le_iff)
    finally show ?thesis by simp
  qed
  consider (low) "q < 1 / 2" | (top) "1 / 2 \<le> q" "q < 1" | (one) "q = 1"
    using q1 by fastforce
  then show ?thesis
  proof cases
    case low
    have "to_float q \<le> 1 / 2" by (rule to_float_below_half[OF q0 low])
    then have "to_float q < 8106479329266893 / 2 ^ 53" by simp
    moreover have "q \<le> 30198989 / 33554432" using low by simp
    ultimately show ?thesis using u rhs by simp
  next
    case top
    have tf: "to_float q = of_int (round_half_even (q * 2 ^ 24)) / 2 ^ 24"
      by (rule to_float_in_top_binade[OF top])
    have "to_float q < 8106479329266893 / 2 ^ 53 \<longleftrightarrow>
          (of_int (round_half_even (q * 2 ^ 24)) :: rat) < 8106479329266893 / 2 ^ 29"
      by (simp add: tf field_simps)
    also have "\<dots> \<longleftrightarrow> round_half_even (q * 2 ^ 24) \<le> 15099494"
    proof -
      have "(of_int k :: rat) < 8106479329266893 / 2 ^ 29 \<longleftrightarrow> k \<le> 15099494" for k :: int
      proof
        assume "(of_int k :: rat) < 8106479329266893 / 2 ^ 29"
        then have "(of_int k :: rat) < of_int 15099495" by simp
        then have "k < 15099495" by (simp only: of_int_less_iff)
        then show "k \<le> 15099494" by simp
      next
        assume "k \<le> 15099494"
        then have "(of_int k :: rat) \<le> of_int 15099494" by (simp only: of_int_le_iff)
        then show "(of_int k :: rat) < 8106479329266893 / 2 ^ 29" by simp
      qed
      then show ?thesis by simp
    qed
    also have "\<dots> \<longleftrightarrow> q * 2 ^ 24 \<le> of_int 15099494 + 1 / 2"
      by (rule round_half_even_le_even) simp
    also have "\<dots> \<longleftrightarrow> q \<le> 30198989 / 33554432"
      by (simp add: field_simps)
    finally show ?thesis using u rhs by simp
  next
    case one
    have "to_float q = 1" using to_float_of_small_int[of 1] by (simp add: one)
    then show ?thesis using u rhs by (simp add: one)
  qed
qed

text \<open>
  Claim C7 says that the classifier marks a sender as poor exactly when its cumulative
  ratio of good to total pairings is below 0.9. In the example each of the two senders has
  ten pairings (same band, less than 5 minutes apart), nine of them good (frequencies less
  than 2 kHz apart): the ratio is exactly nine tenths, which is not below 0.9, and the
  classifier marks both senders as poor.
\<close>

theorem poor_at_exactly_nine_tenths:
  "cross_check_counts example_cross_check {} = Inr [(''W1AAA'', 10, 9), (''K2BBB'', 10, 9)] \<and>
   \<not> ((9::rat) / 10 < 9 / 10) \<and>
   unreliable (10, 9) \<and>
   calls_with_unreliable_freq example_cross_check {} = Inr {''W1AAA'', ''K2BBB''}"
  by code_simp

end
